theory Spec2Isabelle
  imports Main
begin

section \<open>JavaScript strings\<close>

text \<open>
  A JavaScript string is a sequence of UTF-16 code units; \<open>length\<close> counts code units.
  A code unit is modelled by its numeric value, so that the invisible code points the
  sanitizer removes (U+200B and friends) can be written down.
\<close>

type_synonym jsstring = "nat list"

definition js :: "string \<Rightarrow> jsstring" where
  "js s = map of_char s"

text \<open>Truthiness of \<open>string | null | undefined\<close>: null, undefined and the empty string are falsy.\<close>

fun truthy :: "jsstring option \<Rightarrow> bool" where
  "truthy None = False"
| "truthy (Some s) = (s \<noteq> [])"

text \<open>\<open>value || null\<close> on an optional string.\<close>

definition or_null :: "jsstring option \<Rightarrow> jsstring option" where
  "or_null v = (if truthy v then v else None)"

text \<open>The relational operator \<open><\<close> on two strings: lexicographic on code units.\<close>

fun str_less :: "jsstring \<Rightarrow> jsstring \<Rightarrow> bool" where
  "str_less [] [] = False"
| "str_less [] (y # ys) = True"
| "str_less (x # xs) [] = False"
| "str_less (x # xs) (y # ys) = (x < y \<or> (x = y \<and> str_less xs ys))"

section \<open>Regular expressions of the sanitizer\<close>

text \<open>
  The fragment of ECMAScript regular expressions that the injection patterns use, matched
  by backtracking in the priority order of the language: an alternation tries its left
  branch first, an optional group and the greedy \<open>\s*\<close>, \<open>\s+\<close> try the longest
  repetition first. All patterns carry the flags \<open>gi\<close> and no \<open>u\<close> flag.
\<close>

datatype rx =
    Lit string          \<comment> \<open>literal characters, compared case-insensitively\<close>
  | Spaces0             \<comment> \<open>\<open>\s*\<close>\<close>
  | Spaces1             \<comment> \<open>\<open>\s+\<close>\<close>
  | OneOf string        \<comment> \<open>a character class of literal characters, \<open>[...]\<close>\<close>
  | WordB               \<comment> \<open>\<open>\b\<close>\<close>
  | Seq rx rx
  | Alt rx rx
  | Opt rx              \<comment> \<open>\<open>(...)?\<close>\<close>

text \<open>\<open>\w\<close> without the \<open>u\<close> flag: \<open>[A-Za-z0-9_]\<close>.\<close>

definition is_word :: "nat \<Rightarrow> bool" where
  "is_word c = ((65 \<le> c \<and> c \<le> 90) \<or> (97 \<le> c \<and> c \<le> 122) \<or> (48 \<le> c \<and> c \<le> 57) \<or> c = 95)"

text \<open>\<open>\s\<close>: the WhiteSpace and LineTerminator code points of ECMAScript.\<close>

definition is_space :: "nat \<Rightarrow> bool" where
  "is_space c = ((9 \<le> c \<and> c \<le> 13) \<or> c = 32 \<or> c = 160 \<or> c = 5760
      \<or> (8192 \<le> c \<and> c \<le> 8202) \<or> c = 8232 \<or> c = 8233 \<or> c = 8239 \<or> c = 8287
      \<or> c = 12288 \<or> c = 65279)"

text \<open>
  Canonicalize of the \<open>i\<close> flag. Every pattern character is ASCII, and a code unit of 128 or
  more never canonicalizes to an ASCII one, so only the ASCII letters need folding.
\<close>

definition canon :: "nat \<Rightarrow> nat" where
  "canon c = (if 97 \<le> c \<and> c \<le> 122 then c - 32 else c)"

text \<open>
  A position in the subject string: the code unit before it (if any) and the rest of the
  string from it.
\<close>

type_synonym rxpos = "nat option \<times> jsstring"

fun wordish :: "nat option \<Rightarrow> bool" where
  "wordish None = False"
| "wordish (Some c) = is_word c"

fun match_lit :: "jsstring \<Rightarrow> rxpos \<Rightarrow> rxpos option" where
  "match_lit [] p = Some p"
| "match_lit (l # ls) (prev, []) = None"
| "match_lit (l # ls) (prev, c # cs) =
     (if canon c = canon l then match_lit ls (Some c, cs) else None)"

text \<open>All ways to consume leading white space, the longest first.\<close>

fun match_spaces :: "rxpos \<Rightarrow> rxpos list" where
  "match_spaces (prev, []) = [(prev, [])]"
| "match_spaces (prev, c # cs) =
     (if is_space c then match_spaces (Some c, cs) @ [(prev, c # cs)] else [(prev, c # cs)])"

text \<open>The positions at which a match of the expression from \<open>p\<close> can end, in priority order.\<close>

fun matches :: "rx \<Rightarrow> rxpos \<Rightarrow> rxpos list" where
  "matches (Lit l) p = (case match_lit (js l) p of None \<Rightarrow> [] | Some q \<Rightarrow> [q])"
| "matches Spaces0 p = match_spaces p"
| "matches Spaces1 p = butlast (match_spaces p)"
| "matches (OneOf cls) (prev, []) = []"
| "matches (OneOf cls) (prev, c # cs) = (if c \<in> set (js cls) then [(Some c, cs)] else [])"
| "matches WordB (prev, s) =
     (if wordish prev \<noteq> wordish (case s of [] \<Rightarrow> None | c # cs \<Rightarrow> Some c) then [(prev, s)] else [])"
| "matches (Seq a b) p = concat (map (matches b) (matches a p))"
| "matches (Alt a b) p = matches a p @ matches b p"
| "matches (Opt a) p = matches a p @ [p]"

text \<open>The number of code units the first match at this position consumes, if there is a match.\<close>

definition match_len :: "rx \<Rightarrow> nat option \<Rightarrow> jsstring \<Rightarrow> nat option" where
  "match_len r prev s =
     (case matches r (prev, s) of [] \<Rightarrow> None | (q, rest) # more \<Rightarrow> Some (length s - length rest))"

definition FILTERED :: jsstring where
  "FILTERED = js ''[FILTERED]''"

text \<open>
  \<open>text.replace(pattern, '[FILTERED]')\<close> for a global pattern: scan from the left, replace
  the first match found at the leftmost position, go on behind it. \<open>skip\<close> counts the code
  units of the current match still to be passed over. Every injection pattern consumes at
  least one code unit, so the empty-match rule of the language never applies.
\<close>

primrec replace_g :: "rx \<Rightarrow> nat \<Rightarrow> nat option \<Rightarrow> jsstring \<Rightarrow> jsstring" where
  "replace_g r skip prev [] = []"
| "replace_g r skip prev (c # cs) =
     (case skip of
        Suc k \<Rightarrow> replace_g r k (Some c) cs
      | 0 \<Rightarrow> (case match_len r prev (c # cs) of
                Some (Suc k) \<Rightarrow> FILTERED @ replace_g r k (Some c) cs
              | _ \<Rightarrow> c # replace_g r 0 (Some c) cs))"

definition replace_all :: "rx \<Rightarrow> jsstring \<Rightarrow> jsstring" where
  "replace_all r s = replace_g r 0 None s"

section \<open>Sanitizer (sanitize.ts)\<close>

definition alts :: "string list \<Rightarrow> rx" where
  "alts ws = foldr (\<lambda>w r. Alt (Lit w) r) (butlast ws) (Lit (last ws))"

text \<open>
  The seven entries of \<open>INJECTION_PATTERNS\<close>, in the order of the source:
  \<^verbatim>\<open>/\bSYSTEM\s*(MESSAGE|PROMPT|INSTRUCTION)/gi\<close>,
  \<^verbatim>\<open>/\bIGNORE\s*(ALL\s*)?(PREVIOUS|PRIOR)\s*(INSTRUCTIONS?|PROMPTS?)/gi\<close>,
  \<^verbatim>\<open>/\b(EXECUTE|RUN|EVAL)\s*[:(/]/gi\<close>,
  \<^verbatim>\<open>/\bexec\s*\(/gi\<close>,
  \<^verbatim>\<open>/\bmessage\s+tool\b/gi\<close>,
  \<^verbatim>\<open>/\bsessions_spawn\b/gi\<close>,
  \<^verbatim>\<open>/\b(SEND|LEAK|EXTRACT)\s+(API\s+KEY|PASSWORD|TOKEN|SECRET|CREDENTIAL)/gi\<close>.
\<close>

definition INJECTION_PATTERNS :: "rx list" where
  "INJECTION_PATTERNS =
   [ Seq WordB (Seq (Lit ''SYSTEM'') (Seq Spaces0 (alts [''MESSAGE'', ''PROMPT'', ''INSTRUCTION''])))
   , Seq WordB (Seq (Lit ''IGNORE'') (Seq Spaces0 (Seq (Opt (Seq (Lit ''ALL'') Spaces0))
       (Seq (alts [''PREVIOUS'', ''PRIOR'']) (Seq Spaces0
         (Alt (Seq (Lit ''INSTRUCTION'') (Opt (Lit ''S''))) (Seq (Lit ''PROMPT'') (Opt (Lit ''S'')))))))))
   , Seq WordB (Seq (alts [''EXECUTE'', ''RUN'', ''EVAL'']) (Seq Spaces0 (OneOf '':(/'')))
   , Seq WordB (Seq (Lit ''exec'') (Seq Spaces0 (Lit ''('')))
   , Seq WordB (Seq (Lit ''message'') (Seq Spaces1 (Seq (Lit ''tool'') WordB)))
   , Seq WordB (Seq (Lit ''sessions_spawn'') WordB)
   , Seq WordB (Seq (alts [''SEND'', ''LEAK'', ''EXTRACT'']) (Seq Spaces1
       (Alt (Seq (Lit ''API'') (Seq Spaces1 (Lit ''KEY'')))
            (alts [''PASSWORD'', ''TOKEN'', ''SECRET'', ''CREDENTIAL'']))))
   ]"

definition stripInjectionPatterns :: "jsstring \<Rightarrow> jsstring" where
  "stripInjectionPatterns text = foldl (\<lambda>cleaned pattern. replace_all pattern cleaned) text INJECTION_PATTERNS"

record limits =
  l_taskId :: nat
  l_text :: nat
  l_notes :: nat
  l_project :: nat
  l_context :: nat

definition LIMITS :: limits where
  "LIMITS = \<lparr> l_taskId = 8, l_text = 1000, l_notes = 5000, l_project = 50, l_context = 50 \<rparr>"

definition truncate_marker :: jsstring where
  "truncate_marker = js ''... [truncated]''"

text \<open>\<open>substring(0, k)\<close> clamps a negative \<open>k\<close> to 0 and a large one to the length.\<close>

definition truncate_js :: "jsstring option \<Rightarrow> int \<Rightarrow> jsstring" where
  "truncate_js text maxLen =
     (case text of
        None \<Rightarrow> []
      | Some t \<Rightarrow>
          if t = [] then []
          else if int (length t) \<le> maxLen then t
          else take (nat (maxLen - int (length truncate_marker))) t @ truncate_marker)"

text \<open>
  The two character classes removed by \<open>stripControlChars\<close>: the ASCII controls
  00-08, 0B, 0C, 0E-1F and 7F (tab 09, newline 0A and carriage return 0D stay), and the
  invisible or directional code points U+200B-U+200F, U+202A-U+202E, U+FEFF and
  U+2060-U+2064.
\<close>

definition ascii_control :: "nat \<Rightarrow> bool" where
  "ascii_control c = (c \<le> 8 \<or> c = 11 \<or> c = 12 \<or> (14 \<le> c \<and> c \<le> 31) \<or> c = 127)"

definition unicode_control :: "nat \<Rightarrow> bool" where
  "unicode_control c = ((8203 \<le> c \<and> c \<le> 8207) \<or> (8234 \<le> c \<and> c \<le> 8238) \<or> c = 65279
      \<or> (8288 \<le> c \<and> c \<le> 8292))"

definition stripControlChars :: "jsstring \<Rightarrow> jsstring" where
  "stripControlChars text = filter (\<lambda>c. \<not> unicode_control c) (filter (\<lambda>c. \<not> ascii_control c) text)"

definition sanitize :: "jsstring option \<Rightarrow> int \<Rightarrow> jsstring" where
  "sanitize text maxLen =
     (if \<not> truthy text then []
      else truncate_js (Some (stripInjectionPatterns (stripControlChars (the text)))) maxLen)"


datatype TaskStatus = Proposed | Todo | InProgress | Done | Archived
datatype AutonomyLevel = Auto | AutoNotify | Collab
datatype Urgency = Now | Soon | Whenever | Someday
datatype AddedBy = Human | Agent

text \<open>The context a rate-limit error carries: \<open>{ proposedCount, limit: 5 }\<close> or \<open>{ cooldownSec }\<close>.\<close>

datatype rate_context = ProposedCount nat | CooldownSec int

text \<open>
  The errors the store and the sanitizer throw. A \<open>ClawdoError\<close> is named by its code (with
  the context a claim speaks of); the plain \<open>Error\<close>s of the sanitizer are named by their
  message; \<open>SqliteError\<close> is a constraint error of the storage engine that \<open>wrapSQLiteError\<close>
  hands on unchanged.
\<close>

datatype error =
    TASK_NOT_FOUND
  | TASK_ALREADY_IN_PROGRESS
  | INVALID_STATUS_TRANSITION
  | TASK_BLOCKED
  | TASK_NOT_CONFIRMED
  | TASK_ALREADY_DONE
  | TASK_ALREADY_ARCHIVED
  | PERMISSION_DENIED AutonomyLevel      \<comment> \<open>context: \<open>currentAutonomy\<close>\<close>
  | BLOCKER_NOT_FOUND
  | BLOCKER_ALREADY_DONE
  | CIRCULAR_DEPENDENCY
  | RATE_LIMIT_EXCEEDED rate_context
  | INVALID_PROJECT_FORMAT
  | INVALID_STATUS                      \<comment> \<open>the code the due-date checks use\<close>
  | TEXT_TOO_LONG nat                   \<comment> \<open>combined notes too long, with the length\<close>
  | TextEmpty                           \<comment> \<open>\<open>Error('Task text cannot be empty')\<close>\<close>
  | TextTooLong nat                     \<comment> \<open>\<open>Error('Task text too long: ...')\<close>\<close>
  | NotesTooLong nat                    \<comment> \<open>\<open>Error('Notes too long: ...')\<close>\<close>
  | TagTooLong nat                      \<comment> \<open>\<open>Error('Tag too long: ...')\<close>\<close>
  | TaskIdExists                        \<comment> \<open>\<open>Error('Task ID already exists')\<close>\<close>
  | SqliteError

text \<open>\<open>String.prototype.trim\<close> removes white space and line terminators at both ends.\<close>

definition trim :: "jsstring \<Rightarrow> jsstring" where
  "trim s = rev (dropWhile is_space (rev (dropWhile is_space s)))"

definition sanitizeText :: "jsstring \<Rightarrow> error + jsstring" where
  "sanitizeText text =
     (if text = [] then Inl TextEmpty
      else let clean = stripInjectionPatterns (stripControlChars text) in
        if length (trim clean) = 0 then Inl TextEmpty
        else if length clean > l_text LIMITS then Inl (TextTooLong (length clean))
        else Inr clean)"

definition sanitizeNotes :: "jsstring option \<Rightarrow> error + jsstring" where
  "sanitizeNotes notes =
     (if \<not> truthy notes then Inr []
      else let clean = stripInjectionPatterns (stripControlChars (the notes)) in
        if length clean > l_notes LIMITS then Inl (NotesTooLong (length clean))
        else Inr clean)"

definition sanitizeTag :: "jsstring option \<Rightarrow> error + jsstring option" where
  "sanitizeTag tag =
     (if \<not> truthy tag then Inr None
      else let cleaned = stripControlChars (the tag) in
        if length cleaned > l_project LIMITS then Inl (TagTooLong (length cleaned))
        else Inr (Some cleaned))"

text \<open>\<open>[a-z0-9]\<close>\<close>

definition lower_alnum :: "nat \<Rightarrow> bool" where
  "lower_alnum c = ((97 \<le> c \<and> c \<le> 122) \<or> (48 \<le> c \<and> c \<le> 57))"

definition is_digit :: "nat \<Rightarrow> bool" where
  "is_digit c = (48 \<le> c \<and> c \<le> 57)"

definition validateTaskId :: "jsstring \<Rightarrow> bool" where
  "validateTaskId i =
     (if i = [] \<or> length i \<noteq> l_taskId LIMITS then False
      else length i = 8 \<and> list_all lower_alnum i)"

text \<open>
  \<open>generateTaskId\<close> draws eight characters of the 36-letter alphabet with \<open>randomInt(36)\<close>.
  The random source of one call is a function giving the raw value behind the i-th draw;
  \<open>randomInt(36)\<close> delivers a number below 36.
\<close>

definition id_chars :: jsstring where
  "id_chars = js ''abcdefghijklmnopqrstuvwxyz0123456789''"

definition generateTaskId :: "(nat \<Rightarrow> nat) \<Rightarrow> jsstring" where
  "generateTaskId rnd = map (\<lambda>i. id_chars ! (rnd i mod length id_chars)) [0..<l_taskId LIMITS]"

section \<open>The store (db.ts)\<close>

text \<open>A row of table \<open>tasks\<close> (\<open>TaskRow\<close>), which \<open>rowToTask\<close> copies field by field into a \<open>Task\<close>.\<close>

record Task =
  t_id :: jsstring
  t_text :: jsstring
  t_status :: TaskStatus
  t_autonomy :: AutonomyLevel
  t_urgency :: Urgency
  t_project :: "jsstring option"
  t_context :: "jsstring option"
  t_due_date :: "jsstring option"
  t_blocked_by :: "jsstring option"
  t_added_by :: AddedBy
  t_created_at :: jsstring
  t_started_at :: "jsstring option"
  t_completed_at :: "jsstring option"
  t_notes :: "jsstring option"
  t_attempts :: nat
  t_last_attempt_at :: "jsstring option"
  t_tokens_used :: nat
  t_duration_sec :: nat

text \<open>
  A row of table \<open>task_history\<close>. The columns \<open>old_value\<close> and \<open>new_value\<close> hold the JSON text
  of a task; the model keeps the task itself. \<open>tools_used\<close> holds the JSON text of a list of
  names; the model keeps the list.
\<close>

record History =
  h_task_id :: jsstring
  h_action :: string
  h_actor :: AddedBy
  h_timestamp :: jsstring
  h_notes :: "jsstring option"
  h_session_id :: "jsstring option"
  h_session_log_path :: "jsstring option"
  h_old_value :: "Task option"
  h_new_value :: "Task option"
  h_tools_used :: "jsstring list option"

text \<open>A line of the in-memory audit queue: timestamp, action, actor and task id.\<close>

record Audit =
  a_timestamp :: jsstring
  a_action :: string
  a_actor :: AddedBy
  a_task_id :: jsstring

text \<open>
  The state of a \<open>TodoDatabase\<close>: the three tables in insertion order (table \<open>config\<close> as a
  map from key to a value that may be NULL) and the audit queue. Flushing the queue to the
  audit file happens on a timer and is not part of the model.
\<close>

record db =
  tasks :: "Task list"
  task_history :: "History list"
  config :: "jsstring \<rightharpoonup> jsstring option"
  auditQueue :: "Audit list"

text \<open>
  What an operation reads from outside the store: the clock (\<open>Date.now()\<close> and
  \<open>new Date().toISOString()\<close>, one reading per operation), the ISO text of the instant a
  number of milliseconds ago, SQLite's \<open>datetime('now', '-1 hour')\<close>, the random sources of
  the successive \<open>generateTaskId\<close> calls, and whether \<open>new Date(text)\<close> is a valid date.
\<close>

record env =
  now_ms :: int
  now_iso :: jsstring
  iso_ago :: "int \<Rightarrow> jsstring"
  sqlite_hour_ago :: jsstring
  draws :: "(nat \<Rightarrow> nat) list"
  date_parses :: "jsstring \<Rightarrow> bool"

text \<open>The store after the constructor has run \<open>migrate\<close> on an empty file.\<close>

definition init_db :: db where
  "init_db = \<lparr> tasks = [], task_history = [],
     config = [js ''schema_version'' \<mapsto> Some (js ''1''),
               js ''heartbeat_lock'' \<mapsto> None,
               js ''auto_execution_enabled'' \<mapsto> Some (js ''true'')],
     auditQueue = [] \<rparr>"

definition getTask :: "db \<Rightarrow> jsstring \<Rightarrow> Task option" where
  "getTask s i = (if \<not> validateTaskId i then None else find (\<lambda>t. t_id t = i) (tasks s))"

definition getConfig :: "db \<Rightarrow> jsstring \<Rightarrow> jsstring option" where
  "getConfig s k = (case config s k of None \<Rightarrow> None | Some v \<Rightarrow> v)"

definition setConfig :: "jsstring \<Rightarrow> jsstring option \<Rightarrow> db \<Rightarrow> db" where
  "setConfig k v s = s\<lparr>config := (config s)(k \<mapsto> v)\<rparr>"

text \<open>\<open>UPDATE tasks SET ... WHERE ...\<close>: every row the condition selects is rewritten.\<close>

definition update_where :: "(Task \<Rightarrow> bool) \<Rightarrow> (Task \<Rightarrow> Task) \<Rightarrow> db \<Rightarrow> db" where
  "update_where P f s = s\<lparr>tasks := map (\<lambda>t. if P t then f t else t) (tasks s)\<rparr>"

text \<open>\<open>addHistory\<close> stores \<open>entry.field || null\<close> for each optional field.\<close>

definition addHistory :: "History \<Rightarrow> db \<Rightarrow> db" where
  "addHistory entry s = s\<lparr>task_history := task_history s @
     [entry\<lparr> h_notes := or_null (h_notes entry),
             h_session_id := or_null (h_session_id entry),
             h_session_log_path := or_null (h_session_log_path entry) \<rparr>]\<rparr>"

definition hist :: "jsstring \<Rightarrow> string \<Rightarrow> AddedBy \<Rightarrow> jsstring \<Rightarrow> History" where
  "hist i action actor ts = \<lparr> h_task_id = i, h_action = action, h_actor = actor, h_timestamp = ts,
     h_notes = None, h_session_id = None, h_session_log_path = None,
     h_old_value = None, h_new_value = None, h_tools_used = None \<rparr>"

definition audit :: "env \<Rightarrow> string \<Rightarrow> AddedBy \<Rightarrow> jsstring \<Rightarrow> db \<Rightarrow> db" where
  "audit e action actor i s = s\<lparr>auditQueue := auditQueue s @
     [\<lparr> a_timestamp = now_iso e, a_action = action, a_actor = actor, a_task_id = i \<rparr>]\<rparr>"


subsection \<open>Constraints of the schema\<close>

text \<open>
  The \<open>CHECK\<close> constraints of table \<open>tasks\<close> that a typed row can violate (the four \<open>IN\<close>
  constraints hold for every value of the enumeration types). SQLite's \<open>trim\<close> removes
  spaces only; \<open>GLOB '+[a-z0-9-]*'\<close> fixes the first two characters; \<open>length\<close> counts
  characters, which is at most the number of code units counted here.
\<close>

definition sqlite_trim :: "jsstring \<Rightarrow> jsstring" where
  "sqlite_trim s = rev (dropWhile (\<lambda>c. c = 32) (rev (dropWhile (\<lambda>c. c = 32) s)))"

definition glob_tag :: "nat \<Rightarrow> jsstring \<Rightarrow> bool" where
  "glob_tag pfx s = (case s of c # d # rest \<Rightarrow> c = pfx \<and> (lower_alnum d \<or> d = 45) | _ \<Rightarrow> False)"

definition check_row :: "Task \<Rightarrow> bool" where
  "check_row t =
     (length (t_id t) = 8 \<and> (case t_id t of [] \<Rightarrow> False | c # cs \<Rightarrow> lower_alnum c)
      \<and> length (sqlite_trim (t_text t)) > 0 \<and> length (t_text t) \<le> 1000
      \<and> (case t_project t of None \<Rightarrow> True | Some p \<Rightarrow> glob_tag 43 p \<and> length p \<le> 50)
      \<and> (case t_context t of None \<Rightarrow> True | Some c \<Rightarrow> glob_tag 64 c \<and> length c \<le> 50)
      \<and> (case t_notes t of None \<Rightarrow> True | Some n \<Rightarrow> length n \<le> 5000))"

text \<open>\<open>blocked_by TEXT REFERENCES tasks(id)\<close>, enforced by the storage engine.\<close>

definition fk_ok :: "Task list \<Rightarrow> bool" where
  "fk_ok rows = (\<forall>t \<in> set rows. case t_blocked_by t of None \<Rightarrow> True | Some b \<Rightarrow> b \<in> set (map t_id rows))"

text \<open>
  \<open>INSERT INTO tasks\<close> as \<open>createTask\<close> wraps it: a constraint error leaves the table as it
  was and is thrown through \<open>wrapSQLiteError\<close>.
\<close>

definition sql_insert :: "Task \<Rightarrow> db \<Rightarrow> error + db" where
  "sql_insert row s =
     (if \<not> check_row row then Inl SqliteError
      else if t_id row \<in> set (map t_id (tasks s)) then Inl TaskIdExists
      else if \<not> fk_ok (tasks s @ [row]) then Inl BLOCKER_NOT_FOUND
      else Inr (s\<lparr>tasks := tasks s @ [row]\<rparr>))"

text \<open>\<open>UPDATE tasks SET ... WHERE id = ?\<close> as \<open>updateTask\<close> wraps it.\<close>

definition sql_update :: "jsstring \<Rightarrow> (Task \<Rightarrow> Task) \<Rightarrow> db \<Rightarrow> error + db" where
  "sql_update i f s =
     (let rows = map (\<lambda>t. if t_id t = i then f t else t) (tasks s) in
      if \<not> list_all check_row (filter (\<lambda>t. t_id t = i) rows) then Inl SqliteError
      else if \<not> fk_ok rows then Inl BLOCKER_NOT_FOUND
      else Inr (s\<lparr>tasks := rows\<rparr>))"

subsection \<open>Reading\<close>

record filters =
  f_status :: "TaskStatus list option"    \<comment> \<open>a single status is the one-element list\<close>
  f_autonomy :: "AutonomyLevel option"
  f_urgency :: "Urgency option"
  f_project :: "jsstring option"
  f_addedBy :: "AddedBy option"
  f_blocked :: "bool option"
  f_ready :: bool

definition no_filters :: filters where
  "no_filters = \<lparr> f_status = None, f_autonomy = None, f_urgency = None, f_project = None,
     f_addedBy = None, f_blocked = None, f_ready = False \<rparr>"

fun urgency_rank :: "Urgency \<Rightarrow> nat" where
  "urgency_rank Now = 0"
| "urgency_rank Soon = 1"
| "urgency_rank Whenever = 2"
| "urgency_rank Someday = 3"

definition row_le :: "Task \<Rightarrow> Task \<Rightarrow> bool" where
  "row_le a b = (urgency_rank (t_urgency a) < urgency_rank (t_urgency b)
     \<or> (urgency_rank (t_urgency a) = urgency_rank (t_urgency b)
         \<and> \<not> str_less (t_created_at b) (t_created_at a)))"

fun insert_row :: "Task \<Rightarrow> Task list \<Rightarrow> Task list" where
  "insert_row x [] = [x]"
| "insert_row x (y # ys) = (if row_le x y then x # y # ys else y # insert_row x ys)"

text \<open>\<open>ORDER BY CASE urgency ... END, created_at ASC\<close>; rows with equal keys stay in table order.\<close>

definition order_rows :: "Task list \<Rightarrow> Task list" where
  "order_rows rows = foldr insert_row rows []"

definition matches_filters :: "filters \<Rightarrow> Task \<Rightarrow> bool" where
  "matches_filters f t =
     ((case f_status f of None \<Rightarrow> True | Some sts \<Rightarrow> t_status t \<in> set sts)
      \<and> (case f_autonomy f of None \<Rightarrow> True | Some a \<Rightarrow> t_autonomy t = a)
      \<and> (case f_urgency f of None \<Rightarrow> True | Some u \<Rightarrow> t_urgency t = u)
      \<and> (if truthy (f_project f) then t_project t = f_project f else True)
      \<and> (case f_addedBy f of None \<Rightarrow> True | Some a \<Rightarrow> t_added_by t = a)
      \<and> (case f_blocked f of None \<Rightarrow> True | Some True \<Rightarrow> t_blocked_by t \<noteq> None
            | Some False \<Rightarrow> t_blocked_by t = None)
      \<and> (if f_ready f then (t_status t = Todo \<or> t_status t = InProgress) \<and> t_blocked_by t = None
          else True))"

definition listTasks :: "db \<Rightarrow> filters \<Rightarrow> Task list" where
  "listTasks s f = order_rows (filter (matches_filters f) (tasks s))"

definition countProposed :: "db \<Rightarrow> nat" where
  "countProposed s = length (filter (\<lambda>t. t_status t = Proposed \<and> t_added_by t = Agent) (tasks s))"

definition countCompletedInLast :: "env \<Rightarrow> db \<Rightarrow> int \<Rightarrow> nat" where
  "countCompletedInLast e s hours =
     (let since = iso_ago e (hours * 60 * 60 * 1000) in
      length (filter (\<lambda>h. h_action h = ''completed'' \<and> str_less since (h_timestamp h)) (task_history s)))"

subsection \<open>Cycle detection\<close>

text \<open>
  The loop of \<open>detectBlockerCycle\<close>, with the set of visited ids and the current id as its
  state. When \<open>getTask(current)\<close> finds nothing, \<open>current\<close> becomes null and the loop ends
  with false.
\<close>

function walk_chain :: "db \<Rightarrow> jsstring \<Rightarrow> jsstring set \<Rightarrow> jsstring option \<Rightarrow> bool" where
  "walk_chain s taskId visited current =
     (if \<not> truthy current then False
      else if the current = taskId then True
      else if the current \<in> visited then False
      else (case getTask s (the current) of
              None \<Rightarrow> False
            | Some task \<Rightarrow> walk_chain s taskId (insert (the current) visited) (or_null (t_blocked_by task))))"
  by pat_completeness auto
termination
proof (relation "measure (\<lambda>(s, taskId, visited, current). card (set (map t_id (tasks s)) - visited))")
  show "wf (measure (\<lambda>(s, taskId, visited, current). card (set (map t_id (tasks s)) - visited)))"
    by simp
next
  fix s :: db and taskId :: jsstring and visited :: "jsstring set" and current :: "jsstring option"
    and task :: Task
  assume nv: "the current \<notin> visited" and g: "getTask s (the current) = Some task"
  have "the current \<in> set (map t_id (tasks s))"
    using g by (force simp: getTask_def find_Some_iff in_set_conv_nth split: if_splits)
  then have mem: "the current \<in> set (map t_id (tasks s)) - visited"
    using nv by simp
  have "set (map t_id (tasks s)) - insert (the current) visited
        \<subset> set (map t_id (tasks s)) - visited"
    using mem by auto
  then have "card (set (map t_id (tasks s)) - insert (the current) visited)
        < card (set (map t_id (tasks s)) - visited)"
    by (intro psubset_card_mono) auto
  then show "((s, taskId, insert (the current) visited, or_null (t_blocked_by task)),
              (s, taskId, visited, current))
        \<in> measure (\<lambda>(s, taskId, visited, current). card (set (map t_id (tasks s)) - visited))"
    by simp
qed

declare walk_chain.simps [simp del]

definition detectBlockerCycle :: "db \<Rightarrow> jsstring \<Rightarrow> jsstring \<Rightarrow> bool" where
  "detectBlockerCycle s taskId blockerId = walk_chain s taskId {} (Some blockerId)"


subsection \<open>Creating a task\<close>

record options =
  o_autonomy :: "AutonomyLevel option"
  o_urgency :: "Urgency option"
  o_project :: "jsstring option"
  o_context :: "jsstring option"
  o_dueDate :: "jsstring option"
  o_blockedBy :: "jsstring option"
  o_confirmed :: "bool option"

definition no_options :: options where
  "no_options = \<lparr> o_autonomy = None, o_urgency = None, o_project = None, o_context = None,
     o_dueDate = None, o_blockedBy = None, o_confirmed = None \<rparr>"

text \<open>\<^verbatim>\<open>/^\+[a-z0-9-]+$/\<close> and \<^verbatim>\<open>/^@[a-z0-9-]+$/\<close>, by the leading character.\<close>

definition tag_format :: "nat \<Rightarrow> jsstring \<Rightarrow> bool" where
  "tag_format pfx s =
     (case s of [] \<Rightarrow> False
      | c # cs \<Rightarrow> c = pfx \<and> cs \<noteq> [] \<and> list_all (\<lambda>d. lower_alnum d \<or> d = 45) cs)"

text \<open>\<^verbatim>\<open>/^\d{4}-\d{2}-\d{2}$/\<close>\<close>

definition due_format :: "jsstring \<Rightarrow> bool" where
  "due_format d =
     (length d = 10 \<and> list_all is_digit (take 4 d) \<and> d ! 4 = 45
      \<and> list_all is_digit (take 2 (drop 5 d)) \<and> d ! 7 = 45 \<and> list_all is_digit (drop 8 d))"

text \<open>The checks of \<open>createTask\<close> before an id is generated: the first that fails throws.\<close>

definition validate_inputs :: "env \<Rightarrow> jsstring \<Rightarrow> options
    \<Rightarrow> error + (jsstring \<times> jsstring option \<times> jsstring option)" where
  "validate_inputs e text opts =
     (case sanitizeText text of Inl err \<Rightarrow> Inl err | Inr cleanText \<Rightarrow>
      case sanitizeTag (o_project opts) of Inl err \<Rightarrow> Inl err | Inr cleanProject \<Rightarrow>
      case sanitizeTag (o_context opts) of Inl err \<Rightarrow> Inl err | Inr cleanContext \<Rightarrow>
        if truthy cleanProject \<and> \<not> tag_format 43 (the cleanProject) then Inl INVALID_PROJECT_FORMAT
        else if truthy cleanContext \<and> \<not> tag_format 64 (the cleanContext) then Inl INVALID_PROJECT_FORMAT
        else if truthy (o_dueDate opts) \<and> \<not> due_format (the (o_dueDate opts)) then Inl INVALID_STATUS
        else if truthy (o_dueDate opts) \<and> \<not> date_parses e (the (o_dueDate opts)) then Inl INVALID_STATUS
        else Inr (cleanText, cleanProject, cleanContext))"

text \<open>
  \<open>let id = generateTaskId(); while (this.getTask(id)) id = generateTaskId();\<close>: the first
  generated id that is not taken. \<open>None\<close> when every random source of the environment gives
  a taken id: the loop has not ended.
\<close>

definition pick_id :: "db \<Rightarrow> (nat \<Rightarrow> nat) list \<Rightarrow> jsstring option" where
  "pick_id s rnds = find (\<lambda>i. getTask s i = None) (map generateTaskId rnds)"

definition check_blocker :: "db \<Rightarrow> jsstring \<Rightarrow> options \<Rightarrow> error option" where
  "check_blocker s i opts =
     (if \<not> truthy (o_blockedBy opts) then None
      else if \<not> validateTaskId (the (o_blockedBy opts)) then Some BLOCKER_NOT_FOUND
      else if getTask s (the (o_blockedBy opts)) = None then Some BLOCKER_NOT_FOUND
      else if detectBlockerCycle s i (the (o_blockedBy opts)) then Some CIRCULAR_DEPENDENCY
      else None)"

text \<open>
  \<open>parseInt(text, 10)\<close>: leading white space, an optional sign, then the longest run of
  decimal digits; \<open>None\<close> stands for NaN.
\<close>

definition digits_value :: "jsstring \<Rightarrow> int" where
  "digits_value ds = foldl (\<lambda>acc c. acc * 10 + (int c - 48)) 0 ds"

definition parseInt :: "jsstring \<Rightarrow> int option" where
  "parseInt text =
     (let t = dropWhile is_space text;
          neg = (t \<noteq> [] \<and> hd t = 45);
          body = (if t \<noteq> [] \<and> (hd t = 45 \<or> hd t = 43) then tl t else t);
          ds = takeWhile is_digit body
      in if ds = [] then None else Some (if neg then - digits_value ds else digits_value ds))"

text \<open>\<open>Number.prototype.toString\<close> of an integer.\<close>

fun show_nat :: "nat \<Rightarrow> jsstring" where
  "show_nat n = (if n < 10 then [48 + n] else show_nat (n div 10) @ [48 + n mod 10])"

declare show_nat.simps [simp del]

definition show_int :: "int \<Rightarrow> jsstring" where
  "show_int k = (if k < 0 then 45 # show_nat (nat (- k)) else show_nat (nat k))"

text \<open>\<open>Math.ceil(a / b)\<close> for integers \<open>a\<close> and a positive \<open>b\<close>.\<close>

definition ceil_div :: "int \<Rightarrow> int \<Rightarrow> int" where
  "ceil_div a b = - ((- a) div b)"

definition last_agent_proposal :: jsstring where
  "last_agent_proposal = js ''last_agent_proposal''"

text \<open>
  The rate limit of agent proposals: the error it throws, or the store with the proposal
  time written to the config table.
\<close>

definition rate_limit :: "env \<Rightarrow> AddedBy \<Rightarrow> db \<Rightarrow> error + db" where
  "rate_limit e addedBy s =
     (if addedBy = Agent then
        (let proposedCount = countProposed s in
         if proposedCount \<ge> 5 then Inl (RATE_LIMIT_EXCEEDED (ProposedCount proposedCount))
         else
           (let lastProposal = getConfig s last_agent_proposal;
                cooldownMs = 60000 in
            if truthy lastProposal
               \<and> (case parseInt (the lastProposal) of None \<Rightarrow> False
                   | Some t \<Rightarrow> now_ms e - t < cooldownMs)
            then Inl (RATE_LIMIT_EXCEEDED
                   (CooldownSec (ceil_div (cooldownMs - (now_ms e - the (parseInt (the lastProposal)))) 1000)))
            else Inr (setConfig last_agent_proposal (Some (show_int (now_ms e))) s)))
      else Inr s)"

text \<open>The row that \<open>createTask\<close> inserts: the values it binds to the \<open>INSERT\<close> statement.\<close>

definition new_row :: "env \<Rightarrow> jsstring \<Rightarrow> jsstring \<times> jsstring option \<times> jsstring option
    \<Rightarrow> AddedBy \<Rightarrow> options \<Rightarrow> Task" where
  "new_row e i clean addedBy opts =
     \<lparr> t_id = i, t_text = fst clean,
       t_status = (if addedBy = Agent then Proposed else Todo),
       t_autonomy = (case o_autonomy opts of None \<Rightarrow> Collab | Some a \<Rightarrow> a),
       t_urgency = (case o_urgency opts of None \<Rightarrow> Whenever | Some u \<Rightarrow> u),
       t_project = fst (snd clean), t_context = snd (snd clean),
       t_due_date = or_null (o_dueDate opts),
       t_blocked_by = or_null (o_blockedBy opts),
       t_added_by = addedBy, t_created_at = now_iso e,
       t_started_at = None, t_completed_at = None, t_notes = None,
       t_attempts = 0, t_last_attempt_at = None, t_tokens_used = 0, t_duration_sec = 0 \<rparr>"

text \<open>
  \<open>createTask\<close>. The result is \<open>None\<close> when the id loop has not ended; otherwise the thrown
  error or the returned id, together with the store as the call leaves it.
\<close>

definition createTask :: "env \<Rightarrow> jsstring \<Rightarrow> AddedBy \<Rightarrow> options \<Rightarrow> db
    \<Rightarrow> ((error + jsstring) \<times> db) option" where
  "createTask e text addedBy opts s =
     (case validate_inputs e text opts of
        Inl err \<Rightarrow> Some (Inl err, s)
      | Inr clean \<Rightarrow>
     (case pick_id s (draws e) of
        None \<Rightarrow> None
      | Some i \<Rightarrow>
     (case check_blocker s i opts of
        Some err \<Rightarrow> Some (Inl err, s)
      | None \<Rightarrow>
     (case rate_limit e addedBy s of
        Inl err \<Rightarrow> Some (Inl err, s)
      | Inr s1 \<Rightarrow>
     (case sql_insert (new_row e i clean addedBy opts) s1 of
        Inl err \<Rightarrow> Some (Inl err, s1)
      | Inr s2 \<Rightarrow>
          Some (Inr i,
            audit e ''create'' addedBy i
              (addHistory ((hist i ''created'' addedBy (now_iso e))
                 \<lparr>h_notes := (if addedBy = Agent then Some (js ''Agent proposed task'') else None)\<rparr>)
               s2)))))))"

subsection \<open>Editing a task\<close>

text \<open>
  An entry of the \<open>updates\<close> object (\<open>Partial<Task>\<close>), in the order of \<open>Object.entries\<close>.
  \<open>UOther\<close> stands for the keys that are not in \<open>allowedFields\<close>: \<open>id\<close>, \<open>addedBy\<close>,
  \<open>createdAt\<close>, \<open>attempts\<close>, \<open>lastAttemptAt\<close>, \<open>tokensUsed\<close> and \<open>durationSec\<close>.
\<close>

datatype update =
    UText jsstring
  | UStatus TaskStatus
  | UAutonomy AutonomyLevel
  | UUrgency Urgency
  | UProject "jsstring option"
  | UContext "jsstring option"
  | UDueDate "jsstring option"
  | UBlockedBy "jsstring option"
  | UNotes "jsstring option"
  | UStartedAt "jsstring option"
  | UCompletedAt "jsstring option"
  | UOther

fun is_autonomy_update :: "update \<Rightarrow> bool" where
  "is_autonomy_update (UAutonomy a) = True"
| "is_autonomy_update u = False"

text \<open>
  One round of the loop over the entries: the \<open>SET\<close> clause the entry adds with its cleaned
  value (as the change it makes to the row), nothing for a key that is skipped, or the
  error its sanitizer throws.
\<close>

fun set_clause :: "update \<Rightarrow> error + (Task \<Rightarrow> Task) option" where
  "set_clause (UText v) =
     (case sanitizeText v of Inl err \<Rightarrow> Inl err | Inr c \<Rightarrow> Inr (Some (\<lambda>t. t\<lparr>t_text := c\<rparr>)))"
| "set_clause (UNotes v) =
     (case sanitizeNotes v of Inl err \<Rightarrow> Inl err | Inr c \<Rightarrow> Inr (Some (\<lambda>t. t\<lparr>t_notes := Some c\<rparr>)))"
| "set_clause (UProject v) =
     (case sanitizeTag v of Inl err \<Rightarrow> Inl err | Inr c \<Rightarrow> Inr (Some (\<lambda>t. t\<lparr>t_project := c\<rparr>)))"
| "set_clause (UContext v) =
     (case sanitizeTag v of Inl err \<Rightarrow> Inl err | Inr c \<Rightarrow> Inr (Some (\<lambda>t. t\<lparr>t_context := c\<rparr>)))"
| "set_clause (UStatus v) = Inr (Some (\<lambda>t. t\<lparr>t_status := v\<rparr>))"
| "set_clause (UUrgency v) = Inr (Some (\<lambda>t. t\<lparr>t_urgency := v\<rparr>))"
| "set_clause (UDueDate v) = Inr (Some (\<lambda>t. t\<lparr>t_due_date := v\<rparr>))"
| "set_clause (UBlockedBy v) = Inr (Some (\<lambda>t. t\<lparr>t_blocked_by := v\<rparr>))"
| "set_clause (UStartedAt v) = Inr (Some (\<lambda>t. t\<lparr>t_started_at := v\<rparr>))"
| "set_clause (UCompletedAt v) = Inr (Some (\<lambda>t. t\<lparr>t_completed_at := v\<rparr>))"
| "set_clause (UAutonomy v) = Inr None"
| "set_clause UOther = Inr None"

text \<open>The whole loop: the list of \<open>SET\<close> clauses, or the first error.\<close>

fun set_clauses :: "update list \<Rightarrow> error + (Task \<Rightarrow> Task) list" where
  "set_clauses [] = Inr []"
| "set_clauses (u # us) =
     (case set_clause u of
        Inl err \<Rightarrow> Inl err
      | Inr c \<Rightarrow> (case set_clauses us of
                   Inl err \<Rightarrow> Inl err
                 | Inr cs \<Rightarrow> Inr ((case c of None \<Rightarrow> [] | Some f \<Rightarrow> [f]) @ cs)))"

definition updateTask :: "env \<Rightarrow> jsstring \<Rightarrow> update list \<Rightarrow> AddedBy \<Rightarrow> db \<Rightarrow> error option \<times> db" where
  "updateTask e i updates actor s =
     (if \<not> validateTaskId i then (Some TASK_NOT_FOUND, s)
      else case getTask s i of
        None \<Rightarrow> (Some TASK_NOT_FOUND, s)
      | Some existing \<Rightarrow>
          if list_ex is_autonomy_update updates then (Some (PERMISSION_DENIED (t_autonomy existing)), s)
          else (case set_clauses updates of
             Inl err \<Rightarrow> (Some err, s)
           | Inr clauses \<Rightarrow>
               if clauses = [] then (None, s)
               else (case sql_update i (\<lambda>t. foldl (\<lambda>row f. f row) t clauses) s of
                  Inl err \<Rightarrow> (Some err, s)
                | Inr s1 \<Rightarrow>
                    (None, audit e ''update'' actor i
                       (addHistory ((hist i ''updated'' actor (now_iso e))
                          \<lparr>h_old_value := Some existing, h_new_value := getTask s1 i\<rparr>) s1)))))"

subsection \<open>Lifecycle operations\<close>

text \<open>The test both \<open>startTask\<close> and \<open>completeTask\<close> make on a task that names a blocker.\<close>

definition blocker_unresolved :: "db \<Rightarrow> Task \<Rightarrow> bool" where
  "blocker_unresolved s task =
     (truthy (t_blocked_by task)
      \<and> (case getTask s (the (t_blocked_by task)) of
            None \<Rightarrow> False
          | Some blocker \<Rightarrow> t_status blocker \<noteq> Done \<and> t_status blocker \<noteq> Archived))"

definition startTask :: "env \<Rightarrow> jsstring \<Rightarrow> AddedBy \<Rightarrow> db \<Rightarrow> error option \<times> db" where
  "startTask e i actor s =
     (case getTask s i of
        None \<Rightarrow> (Some TASK_NOT_FOUND, s)
      | Some task \<Rightarrow>
          if t_status task = InProgress then (Some TASK_ALREADY_IN_PROGRESS, s)
          else if t_status task \<noteq> Todo then (Some INVALID_STATUS_TRANSITION, s)
          else if blocker_unresolved s task then (Some TASK_BLOCKED, s)
          else (None, audit e ''start'' actor i
                  (addHistory (hist i ''started'' actor (now_iso e))
                    (update_where (\<lambda>t. t_id t = i)
                       (\<lambda>t. t\<lparr>t_status := InProgress, t_started_at := Some (now_iso e)\<rparr>) s))))"

text \<open>
  \<open>completeTask\<close>. The three statements of its transaction (status and \<open>completed_at\<close>, the
  history row, the release of the tasks it blocks) are one step of the model.
\<close>

definition completeTask :: "env \<Rightarrow> jsstring \<Rightarrow> AddedBy \<Rightarrow> jsstring option \<Rightarrow> jsstring option
    \<Rightarrow> jsstring list option \<Rightarrow> db \<Rightarrow> error option \<times> db" where
  "completeTask e i actor sessionId sessionLogPath toolsUsed s =
     (case getTask s i of
        None \<Rightarrow> (Some TASK_NOT_FOUND, s)
      | Some task \<Rightarrow>
          if t_status task = Proposed then (Some TASK_NOT_CONFIRMED, s)
          else if t_status task = Done then (Some TASK_ALREADY_DONE, s)
          else if blocker_unresolved s task then (Some TASK_BLOCKED, s)
          else (None, audit e ''complete'' actor i
                  (update_where (\<lambda>t. t_blocked_by t = Some i) (\<lambda>t. t\<lparr>t_blocked_by := None\<rparr>)
                    (addHistory ((hist i ''completed'' actor (now_iso e))
                        \<lparr>h_session_id := sessionId, h_session_log_path := sessionLogPath,
                         h_tools_used := toolsUsed\<rparr>)
                      (update_where (\<lambda>t. t_id t = i)
                         (\<lambda>t. t\<lparr>t_status := Done, t_completed_at := Some (now_iso e)\<rparr>) s)))))"

definition auto_failed_prefix :: jsstring where
  "auto_failed_prefix = js ''[Auto-failed 3 times] ''"

definition failTask :: "env \<Rightarrow> jsstring \<Rightarrow> jsstring \<Rightarrow> db \<Rightarrow> error option \<times> db" where
  "failTask e i reason s =
     (case getTask s i of
        None \<Rightarrow> (Some TASK_NOT_FOUND, s)
      | Some task \<Rightarrow>
          (let now = now_iso e;
               newAttempts = t_attempts task + 1;
               s1 = (if newAttempts \<ge> 3 then
                       update_where (\<lambda>t. t_id t = i)
                         (\<lambda>t. t\<lparr>t_status := Todo, t_autonomy := Collab, t_attempts := newAttempts,
                                t_last_attempt_at := Some now,
                                t_notes := Some (take (l_notes LIMITS)
                                  (auto_failed_prefix @ (if truthy (t_notes task) then the (t_notes task) else [])))\<rparr>) s
                     else
                       update_where (\<lambda>t. t_id t = i)
                         (\<lambda>t. t\<lparr>t_status := Todo, t_attempts := newAttempts,
                                t_last_attempt_at := Some now\<rparr>) s)
           in (None, audit e ''fail'' Agent i
                 (addHistory ((hist i ''failed'' Agent now)\<lparr>h_notes := Some reason\<rparr>) s1))))"

definition archiveTask :: "env \<Rightarrow> jsstring \<Rightarrow> AddedBy \<Rightarrow> db \<Rightarrow> error option \<times> db" where
  "archiveTask e i actor s =
     (case getTask s i of
        None \<Rightarrow> (Some TASK_NOT_FOUND, s)
      | Some task \<Rightarrow>
          if t_status task = Archived then (Some TASK_ALREADY_ARCHIVED, s)
          else (None, audit e ''archive'' actor i
                  (addHistory (hist i ''archived'' actor (now_iso e))
                    (update_where (\<lambda>t. t_id t = i) (\<lambda>t. t\<lparr>t_status := Archived\<rparr>) s))))"

definition unarchiveTask :: "env \<Rightarrow> jsstring \<Rightarrow> AddedBy \<Rightarrow> db \<Rightarrow> error option \<times> db" where
  "unarchiveTask e i actor s =
     (case getTask s i of
        None \<Rightarrow> (Some TASK_NOT_FOUND, s)
      | Some task \<Rightarrow>
          (None, audit e ''unarchive'' actor i
             (addHistory (hist i ''unarchived'' actor (now_iso e))
               (update_where (\<lambda>t. t_id t = i) (\<lambda>t. t\<lparr>t_status := Todo\<rparr>) s))))"

definition confirmTask :: "env \<Rightarrow> jsstring \<Rightarrow> AddedBy \<Rightarrow> db \<Rightarrow> error option \<times> db" where
  "confirmTask e i actor s =
     (case getTask s i of
        None \<Rightarrow> (Some TASK_NOT_FOUND, s)
      | Some task \<Rightarrow>
          if t_status task \<noteq> Proposed then (Some INVALID_STATUS_TRANSITION, s)
          else (None, audit e ''confirm'' actor i
                  (addHistory (hist i ''confirmed'' actor (now_iso e))
                    (update_where (\<lambda>t. t_id t = i) (\<lambda>t. t\<lparr>t_status := Todo\<rparr>) s))))"

definition rejectTask :: "env \<Rightarrow> jsstring \<Rightarrow> AddedBy \<Rightarrow> jsstring option \<Rightarrow> db \<Rightarrow> error option \<times> db" where
  "rejectTask e i actor reason s =
     (case getTask s i of
        None \<Rightarrow> (Some TASK_NOT_FOUND, s)
      | Some task \<Rightarrow>
          if t_status task \<noteq> Proposed then (Some INVALID_STATUS_TRANSITION, s)
          else (None, audit e ''reject'' actor i
                  (addHistory ((hist i ''rejected'' actor (now_iso e))\<lparr>h_notes := or_null reason\<rparr>)
                    (update_where (\<lambda>t. t_id t = i) (\<lambda>t. t\<lparr>t_status := Archived\<rparr>) s))))"


text \<open>
  The bulk operations list the matching tasks first and then, in one transaction, go
  through that list; the test on \<open>task.status\<close> reads the listed task.
\<close>

definition bulk_complete_one :: "env \<Rightarrow> AddedBy \<Rightarrow> db \<times> nat \<Rightarrow> Task \<Rightarrow> db \<times> nat" where
  "bulk_complete_one e actor acc task =
     (if t_status task = Todo \<or> t_status task = InProgress then
        (update_where (\<lambda>t. t_blocked_by t = Some (t_id task)) (\<lambda>t. t\<lparr>t_blocked_by := None\<rparr>)
           (addHistory (hist (t_id task) ''bulk_completed'' actor (now_iso e))
             (update_where (\<lambda>t. t_id t = t_id task)
                (\<lambda>t. t\<lparr>t_status := Done, t_completed_at := Some (now_iso e)\<rparr>) (fst acc))),
         snd acc + 1)
      else acc)"

definition bulkComplete :: "env \<Rightarrow> filters \<Rightarrow> AddedBy \<Rightarrow> db \<Rightarrow> nat \<times> db" where
  "bulkComplete e f actor s =
     (let r = foldl (bulk_complete_one e actor) (s, 0) (listTasks s f) in
      (snd r, if snd r > 0 then audit e ''bulk_complete'' actor (js ''multiple'') (fst r) else fst r))"

definition bulk_archive_one :: "env \<Rightarrow> AddedBy \<Rightarrow> db \<times> nat \<Rightarrow> Task \<Rightarrow> db \<times> nat" where
  "bulk_archive_one e actor acc task =
     (if t_status task \<noteq> Archived then
        (addHistory (hist (t_id task) ''bulk_archived'' actor (now_iso e))
           (update_where (\<lambda>t. t_id t = t_id task) (\<lambda>t. t\<lparr>t_status := Archived\<rparr>) (fst acc)),
         snd acc + 1)
      else acc)"

definition bulkArchive :: "env \<Rightarrow> filters \<Rightarrow> AddedBy \<Rightarrow> db \<Rightarrow> nat \<times> db" where
  "bulkArchive e f actor s =
     (let r = foldl (bulk_archive_one e actor) (s, 0) (listTasks s f) in
      (snd r, if snd r > 0 then audit e ''bulk_archive'' actor (js ''multiple'') (fst r) else fst r))"

subsection \<open>Blocking, notes, config, retry\<close>

definition blockTask :: "env \<Rightarrow> jsstring \<Rightarrow> jsstring \<Rightarrow> AddedBy \<Rightarrow> db \<Rightarrow> error option \<times> db" where
  "blockTask e i blockerId actor s =
     (if \<not> validateTaskId i \<or> \<not> validateTaskId blockerId then (Some TASK_NOT_FOUND, s)
      else case getTask s i of
        None \<Rightarrow> (Some TASK_NOT_FOUND, s)
      | Some task \<Rightarrow>
         (case getTask s blockerId of
            None \<Rightarrow> (Some BLOCKER_NOT_FOUND, s)
          | Some blocker \<Rightarrow>
              if t_status blocker = Done \<or> t_status blocker = Archived then (Some BLOCKER_ALREADY_DONE, s)
              else if detectBlockerCycle s i blockerId then (Some CIRCULAR_DEPENDENCY, s)
              else (None, audit e ''block'' actor i
                      (addHistory ((hist i ''blocked'' actor (now_iso e))
                          \<lparr>h_notes := Some (js ''Blocked by '' @ blockerId)\<rparr>)
                        (update_where (\<lambda>t. t_id t = i) (\<lambda>t. t\<lparr>t_blocked_by := Some blockerId\<rparr>) s)))))"

definition unblockTask :: "env \<Rightarrow> jsstring \<Rightarrow> AddedBy \<Rightarrow> db \<Rightarrow> error option \<times> db" where
  "unblockTask e i actor s =
     (case getTask s i of
        None \<Rightarrow> (Some TASK_NOT_FOUND, s)
      | Some task \<Rightarrow>
          (None, audit e ''unblock'' actor i
             (addHistory (hist i ''unblocked'' actor (now_iso e))
               (update_where (\<lambda>t. t_id t = i) (\<lambda>t. t\<lparr>t_blocked_by := None\<rparr>) s))))"

text \<open>\<open>now.split('T')[0]\<close>: the text before the first \<open>T\<close>.\<close>

definition date_part :: "jsstring \<Rightarrow> jsstring" where
  "date_part stamp = takeWhile (\<lambda>c. c \<noteq> 84) stamp"

definition addNote :: "env \<Rightarrow> jsstring \<Rightarrow> jsstring \<Rightarrow> AddedBy \<Rightarrow> db \<Rightarrow> error option \<times> db" where
  "addNote e i note actor s =
     (case getTask s i of
        None \<Rightarrow> (Some TASK_NOT_FOUND, s)
      | Some task \<Rightarrow>
         (case sanitizeNotes (Some note) of
            Inl err \<Rightarrow> (Some err, s)
          | Inr cleanNote \<Rightarrow>
             (let now = now_iso e;
                  dateStamp = date_part now;
                  newNote = js ''['' @ dateStamp @ js ''] '' @ cleanNote;
                  updatedNotes = (if truthy (t_notes task) then the (t_notes task) @ [10] @ newNote
                                  else newNote)
              in if length updatedNotes > l_notes LIMITS then (Some (TEXT_TOO_LONG (length updatedNotes)), s)
                 else (None, audit e ''note'' actor i
                         (addHistory ((hist i ''note_added'' actor now)\<lparr>h_notes := Some cleanNote\<rparr>)
                           (update_where (\<lambda>t. t_id t = i) (\<lambda>t. t\<lparr>t_notes := Some updatedNotes\<rparr>) s))))))"

text \<open>The advisory lock: \<open>UPDATE config SET value = ? WHERE key = ? AND value IS NULL\<close>.\<close>

definition acquireLock :: "env \<Rightarrow> jsstring \<Rightarrow> db \<Rightarrow> bool \<times> db" where
  "acquireLock e lockId s =
     (if config s lockId = Some None then (True, setConfig lockId (Some (now_iso e)) s) else (False, s))"

definition releaseLock :: "jsstring \<Rightarrow> db \<Rightarrow> db" where
  "releaseLock lockId s = (if config s lockId = None then s else setConfig lockId None s)"

text \<open>
  \<open>canRetry\<close>: one conditional \<open>UPDATE\<close>; the result says whether a row changed. The stored
  ISO text of the last attempt is compared, as text, with \<open>datetime('now', '-1 hour')\<close>.
\<close>

definition canRetry :: "env \<Rightarrow> jsstring \<Rightarrow> db \<Rightarrow> bool \<times> db" where
  "canRetry e i s =
     (if \<not> validateTaskId i then (False, s)
      else
        (let eligible = (\<lambda>t. t_id t = i \<and> t_status t = Todo \<and> t_attempts t < 3
               \<and> (case t_last_attempt_at t of None \<Rightarrow> True
                   | Some l \<Rightarrow> str_less l (sqlite_hour_ago e)))
         in (list_ex eligible (tasks s), update_where eligible (\<lambda>t. t\<lparr>t_status := InProgress\<rparr>) s)))"

section \<open>The inbox (inbox.ts)\<close>

record InboxMeta =
  autoExecutionEnabled :: bool
  tasksCompleted4h :: nat

record InboxResult =
  meta :: InboxMeta
  autoReady :: "Task list"
  autoNotifyReady :: "Task list"
  urgent :: "Task list"
  overdue :: "Task list"
  proposed :: "Task list"
  stale :: "Task list"
  blocked :: "Task list"

text \<open>One round of the loop over the active tasks: each \<open>if\<close> pushes the task to its bucket.\<close>

definition categorize :: "jsstring \<Rightarrow> jsstring \<Rightarrow> InboxResult \<Rightarrow> Task \<Rightarrow> InboxResult" where
  "categorize now staleThreshold result task =
     (let active = (t_status task = Todo \<or> t_status task = InProgress);
          r1 = (if t_status task = Proposed then result\<lparr>proposed := proposed result @ [task]\<rparr> else result);
          r2 = (if t_urgency task = Now \<and> active then r1\<lparr>urgent := urgent r1 @ [task]\<rparr> else r1);
          r3 = (if truthy (t_due_date task) \<and> str_less (the (t_due_date task)) now \<and> active
                then r2\<lparr>overdue := overdue r2 @ [task]\<rparr> else r2);
          r4 = (if truthy (t_blocked_by task) \<and> active then r3\<lparr>blocked := blocked r3 @ [task]\<rparr> else r3);
          r5 = (if t_status task = InProgress \<and> truthy (t_started_at task)
                   \<and> str_less (the (t_started_at task)) staleThreshold
                then r4\<lparr>stale := stale r4 @ [task]\<rparr> else r4)
      in if t_status task = Todo \<and> \<not> truthy (t_blocked_by task) then
           (if t_autonomy task = Auto then r5\<lparr>autoReady := autoReady r5 @ [task]\<rparr>
            else if t_autonomy task = AutoNotify then r5\<lparr>autoNotifyReady := autoNotifyReady r5 @ [task]\<rparr>
            else r5)
         else r5)"

definition active_filter :: filters where
  "active_filter = no_filters\<lparr>f_status := Some [Todo, InProgress, Proposed]\<rparr>"

definition generateInbox :: "env \<Rightarrow> db \<Rightarrow> InboxResult" where
  "generateInbox e s =
     (let allActiveTasks = listTasks s active_filter;
          now = date_part (now_iso e);
          staleThreshold = iso_ago e (24 * 60 * 60 * 1000);
          result = \<lparr> meta = \<lparr> autoExecutionEnabled = (getConfig s (js ''auto_execution_enabled'') = Some (js ''true'')),
                               tasksCompleted4h = countCompletedInLast e s 4 \<rparr>,
                     autoReady = [], autoNotifyReady = [], urgent = [], overdue = [],
                     proposed = [], stale = [], blocked = [] \<rparr>
      in foldl (categorize now staleThreshold) result allActiveTasks)"

section \<open>Sequences of operations\<close>

text \<open>The public operations of the store that write, with their arguments.\<close>

datatype op =
    CreateTask jsstring AddedBy options
  | UpdateTask jsstring "update list" AddedBy
  | StartTask jsstring AddedBy
  | CompleteTask jsstring AddedBy "jsstring option" "jsstring option" "jsstring list option"
  | FailTask jsstring jsstring
  | ArchiveTask jsstring AddedBy
  | UnarchiveTask jsstring AddedBy
  | BulkComplete filters AddedBy
  | BulkArchive filters AddedBy
  | ConfirmTask jsstring AddedBy
  | RejectTask jsstring AddedBy "jsstring option"
  | BlockTask jsstring jsstring AddedBy
  | UnblockTask jsstring AddedBy
  | AddNote jsstring jsstring AddedBy
  | SetConfig jsstring "jsstring option"
  | AcquireLock jsstring
  | ReleaseLock jsstring
  | CanRetry jsstring

text \<open>
  One call: the error it throws (\<open>None\<close> when it returns) and the store it leaves, or
  \<open>None\<close> when the call has not returned.
\<close>

fun step :: "env \<Rightarrow> op \<Rightarrow> db \<Rightarrow> (error option \<times> db) option" where
  "step e (CreateTask text addedBy opts) s =
     (case createTask e text addedBy opts s of
        None \<Rightarrow> None
      | Some (Inl err, s') \<Rightarrow> Some (Some err, s')
      | Some (Inr i, s') \<Rightarrow> Some (None, s'))"
| "step e (UpdateTask i updates actor) s = Some (updateTask e i updates actor s)"
| "step e (StartTask i actor) s = Some (startTask e i actor s)"
| "step e (CompleteTask i actor sid slog tools) s = Some (completeTask e i actor sid slog tools s)"
| "step e (FailTask i reason) s = Some (failTask e i reason s)"
| "step e (ArchiveTask i actor) s = Some (archiveTask e i actor s)"
| "step e (UnarchiveTask i actor) s = Some (unarchiveTask e i actor s)"
| "step e (BulkComplete f actor) s = Some (None, snd (bulkComplete e f actor s))"
| "step e (BulkArchive f actor) s = Some (None, snd (bulkArchive e f actor s))"
| "step e (ConfirmTask i actor) s = Some (confirmTask e i actor s)"
| "step e (RejectTask i actor reason) s = Some (rejectTask e i actor reason s)"
| "step e (BlockTask i blockerId actor) s = Some (blockTask e i blockerId actor s)"
| "step e (UnblockTask i actor) s = Some (unblockTask e i actor s)"
| "step e (AddNote i note actor) s = Some (addNote e i note actor s)"
| "step e (SetConfig k v) s = Some (None, setConfig k v s)"
| "step e (AcquireLock k) s = Some (None, snd (acquireLock e k s))"
| "step e (ReleaseLock k) s = Some (None, releaseLock k s)"
| "step e (CanRetry i) s = Some (None, snd (canRetry e i s))"

text \<open>The stores that sequences of calls produce from the initial store.\<close>

inductive reachable :: "db \<Rightarrow> bool" where
  init: "reachable init_db"
| call: "reachable s \<Longrightarrow> step e c s = Some (r, s') \<Longrightarrow> reachable s'"

text \<open>Running a list of calls, each with its environment; a thrown error does not stop the caller.\<close>

fun run :: "(env \<times> op) list \<Rightarrow> db \<Rightarrow> db option" where
  "run [] s = Some s"
| "run ((e, c) # cs) s = (case step e c s of None \<Rightarrow> None | Some (r, s') \<Rightarrow> run cs s')"


section \<open>Notions used to state the properties\<close>

text \<open>A code unit that \<open>stripControlChars\<close> keeps.\<close>

definition printable :: "nat \<Rightarrow> bool" where
  "printable c \<longleftrightarrow> \<not> ascii_control c \<and> \<not> unicode_control c"

text \<open>
  The two conditions of the rate limit: five or more agent proposals are waiting, or the stored
  time of the last agent proposal is a number less than 60000 ms before now. \<open>rate_error\<close> is
  the error with the count, or else with the seconds still to wait.
\<close>

definition rate_limited :: "env \<Rightarrow> db \<Rightarrow> bool" where
  "rate_limited e s \<longleftrightarrow> 5 \<le> countProposed s
     \<or> (\<exists>stamp t. getConfig s last_agent_proposal = Some stamp \<and> stamp \<noteq> [] \<and> parseInt stamp = Some t
           \<and> now_ms e - t < 60000)"

definition rate_error :: "env \<Rightarrow> db \<Rightarrow> error" where
  "rate_error e s =
     (if 5 \<le> countProposed s then RATE_LIMIT_EXCEEDED (ProposedCount (countProposed s))
      else RATE_LIMIT_EXCEEDED (CooldownSec
             (ceil_div (60000 - (now_ms e - the (parseInt (the (getConfig s last_agent_proposal))))) 1000)))"

text \<open>Two versions of a row that agree on id, autonomy and attempt count.\<close>

definition unchanged_perm :: "Task \<Rightarrow> Task \<Rightarrow> bool" where
  "unchanged_perm t t' \<longleftrightarrow> t_id t' = t_id t \<and> t_autonomy t' = t_autonomy t \<and> t_attempts t' = t_attempts t"

text \<open>Every task with three or more failed attempts has been demoted to \<open>collab\<close>.\<close>

definition demoted_inv :: "db \<Rightarrow> bool" where
  "demoted_inv s \<longleftrightarrow> (\<forall>t \<in> set (tasks s). 3 \<le> t_attempts t \<longrightarrow> t_autonomy t = Collab)"

text \<open>The row \<open>failTask\<close> writes for a task whose attempts it read from \<open>task\<close>.\<close>

definition fail_row :: "env \<Rightarrow> Task \<Rightarrow> Task \<Rightarrow> Task" where
  "fail_row e task t =
     (if t_attempts task + 1 \<ge> 3 then
        t\<lparr>t_status := Todo, t_autonomy := Collab, t_attempts := t_attempts task + 1,
          t_last_attempt_at := Some (now_iso e),
          t_notes := Some (take (l_notes LIMITS)
             (auto_failed_prefix @ (if truthy (t_notes task) then the (t_notes task) else [])))\<rparr>
      else t\<lparr>t_status := Todo, t_attempts := t_attempts task + 1,
             t_last_attempt_at := Some (now_iso e)\<rparr>)"

text \<open>
  The transition graph as the specification lists it, and the graph with the two further
  edges that completing a \<open>todo\<close> task and archiving a \<open>done\<close> task take.
\<close>

definition edge :: "TaskStatus \<Rightarrow> TaskStatus \<Rightarrow> bool" where
  "edge a b \<longleftrightarrow> (a, b) \<in> {(Proposed, Todo), (Proposed, Archived), (Todo, InProgress),
     (InProgress, Done), (InProgress, Todo), (Todo, Archived), (InProgress, Archived),
     (Archived, Todo)}"

definition edge_amended :: "TaskStatus \<Rightarrow> TaskStatus \<Rightarrow> bool" where
  "edge_amended a b \<longleftrightarrow> edge a b \<or> (a, b) = (Todo, Done) \<or> (a, b) = (Done, Archived)"

text \<open>The lifecycle operations: create, start, complete, fail, confirm, reject, archive, unarchive and the two bulk operations.\<close>

fun lifecycle :: "op \<Rightarrow> bool" where
  "lifecycle (CreateTask body a opts) = True"
| "lifecycle (StartTask i a) = True"
| "lifecycle (CompleteTask i a sid slog tools) = True"
| "lifecycle (FailTask i reason) = True"
| "lifecycle (ConfirmTask i a) = True"
| "lifecycle (RejectTask i a reason) = True"
| "lifecycle (ArchiveTask i a) = True"
| "lifecycle (UnarchiveTask i a) = True"
| "lifecycle (BulkComplete f a) = True"
| "lifecycle (BulkArchive f a) = True"
| "lifecycle c = False"

definition status_is :: "db \<Rightarrow> jsstring \<Rightarrow> (TaskStatus \<Rightarrow> bool) \<Rightarrow> bool" where
  "status_is s i P = (case getTask s i of None \<Rightarrow> True | Some t \<Rightarrow> P (t_status t))"

text \<open>
  The call is made on a task in a state the operation is meant for: complete on a task that is
  not archived, fail on a task that is \<open>todo\<close> or \<open>in_progress\<close>, unarchive on an archived task.
\<close>

fun in_source_state :: "op \<Rightarrow> db \<Rightarrow> bool" where
  "in_source_state (CompleteTask i a sid slog tools) s = status_is s i (\<lambda>st. st \<noteq> Archived)"
| "in_source_state (FailTask i reason) s = status_is s i (\<lambda>st. st = Todo \<or> st = InProgress)"
| "in_source_state (UnarchiveTask i a) s = status_is s i (\<lambda>st. st = Archived)"
| "in_source_state c s = True"

text \<open>
  What a bulk operation over the listed tasks \<open>xs\<close> may do to a row: leave its status, or
  set it to \<open>done\<close> (to \<open>archived\<close>) when a listed task with the row's id passed the test
  of the loop.
\<close>

definition completed_by :: "Task list \<Rightarrow> Task \<Rightarrow> Task \<Rightarrow> bool" where
  "completed_by xs t t' \<longleftrightarrow> t_id t' = t_id t \<and> (t_status t' = t_status t
     \<or> (t_status t' = Done \<and> (\<exists>x \<in> set xs. t_id x = t_id t \<and> (t_status x = Todo \<or> t_status x = InProgress))))"

definition archived_by :: "Task list \<Rightarrow> Task \<Rightarrow> Task \<Rightarrow> bool" where
  "archived_by xs t t' \<longleftrightarrow> t_id t' = t_id t \<and> (t_status t' = t_status t
     \<or> (t_status t' = Archived \<and> (\<exists>x \<in> set xs. t_id x = t_id t \<and> t_status x \<noteq> Archived)))"

section \<open>Example stores\<close>

definition ex_env :: env where
  "ex_env = \<lparr> now_ms = 1700000000000, now_iso = js ''2023-11-14T22:13:20.000Z'',
      iso_ago = (\<lambda>ms. if ms = 86400000 then js ''2023-11-13T22:13:20.000Z''
                       else js ''2023-11-14T18:13:20.000Z''),
      sqlite_hour_ago = js ''2023-11-14 21:13:20'',
      draws = [\<lambda>k. 0, \<lambda>k. 1, \<lambda>k. 2], date_parses = (\<lambda>d. True) \<rparr>"

definition ex_A :: jsstring where "ex_A = js ''aaaaaaaa''"
definition ex_B :: jsstring where "ex_B = js ''bbbbbbbb''"
definition ex_C :: jsstring where "ex_C = js ''cccccccc''"

definition ex_clean :: "jsstring \<times> jsstring option \<times> jsstring option" where
  "ex_clean = (js ''task'', None, None)"

text \<open>The store after a human has created the task \<open>task\<close> in the initial store.\<close>

definition ex_rowA :: Task where
  "ex_rowA = new_row ex_env ex_A ex_clean Human no_options"

definition ex_db1 :: db where
  "ex_db1 = audit ex_env ''create'' Human ex_A
     (addHistory (hist ex_A ''created'' Human (now_iso ex_env)) (init_db\<lparr>tasks := [ex_rowA]\<rparr>))"

text \<open>That store after \<open>updateTask(id, { blockedBy: id })\<close>.\<close>

definition ex_self_blocked :: db where
  "ex_self_blocked = snd (updateTask ex_env ex_A [UBlockedBy (Some ex_A)] Human ex_db1)"


text \<open>The stores after that task has been completed, and then archived.\<close>

definition ex_completed :: db where
  "ex_completed = snd (completeTask ex_env ex_A Human None None None ex_db1)"

definition ex_archived :: db where
  "ex_archived = snd (archiveTask ex_env ex_A Human ex_completed)"

text \<open>A store with a task and two tasks it blocks.\<close>

definition ex_rowB :: Task where
  "ex_rowB = new_row ex_env ex_B ex_clean Human (no_options\<lparr>o_blockedBy := Some ex_A\<rparr>)"

definition ex_rowC :: Task where
  "ex_rowC = new_row ex_env ex_C ex_clean Human (no_options\<lparr>o_blockedBy := Some ex_A\<rparr>)"

definition ex_db3 :: db where
  "ex_db3 = init_db\<lparr>tasks := [ex_rowA, ex_rowB, ex_rowC]\<rparr>"

text \<open>The store after an agent has created a task in the initial store, passing \<open>confirmed: true\<close>.\<close>

definition ex_confirmed :: options where
  "ex_confirmed = no_options\<lparr>o_confirmed := Some True\<rparr>"

definition ex_rowP :: Task where
  "ex_rowP = new_row ex_env ex_A ex_clean Agent ex_confirmed"

definition ex_stamped :: db where
  "ex_stamped = setConfig last_agent_proposal (Some (js ''1700000000000'')) init_db"

definition ex_db_agent :: db where
  "ex_db_agent = audit ex_env ''create'' Agent ex_A
     (addHistory ((hist ex_A ''created'' Agent (now_iso ex_env))\<lparr>h_notes := Some (js ''Agent proposed task'')\<rparr>)
        (ex_stamped\<lparr>tasks := [ex_rowP]\<rparr>))"

text \<open>Options whose project tag is a single zero-width space (U+200B).\<close>

definition ex_zwsp_project :: options where
  "ex_zwsp_project = no_options\<lparr>o_project := Some [8203]\<rparr>"

text \<open>A store whose task has 4990 characters of notes already.\<close>

definition ex_db_full :: db where
  "ex_db_full = init_db\<lparr>tasks := [ex_rowA\<lparr>t_notes := Some (replicate 4990 120)\<rparr>]\<rparr>"

text \<open>A store whose task is urgent and was due on 2023-11-01.\<close>

definition ex_rowU :: Task where
  "ex_rowU = ex_rowA\<lparr>t_urgency := Now, t_due_date := Some (js ''2023-11-01'')\<rparr>"

definition ex_db_inbox :: db where
  "ex_db_inbox = init_db\<lparr>tasks := [ex_rowU]\<rparr>"

text \<open>
  The store after a human has created a task with autonomy level \<open>auto\<close>, and that store
  after one, two and three failed attempts at the task.
\<close>

definition ex_auto :: options where
  "ex_auto = no_options\<lparr>o_autonomy := Some Auto\<rparr>"

definition ex_rowT :: Task where
  "ex_rowT = new_row ex_env ex_A ex_clean Human ex_auto"

definition ex_db_auto :: db where
  "ex_db_auto = audit ex_env ''create'' Human ex_A
     (addHistory (hist ex_A ''created'' Human (now_iso ex_env)) (init_db\<lparr>tasks := [ex_rowT]\<rparr>))"

definition ex_fail :: "env \<times> op" where
  "ex_fail = (ex_env, FailTask ex_A (js ''timeout''))"

definition ex_failed1 :: db where
  "ex_failed1 = snd (failTask ex_env ex_A (js ''timeout'') ex_db_auto)"

definition ex_failed2 :: db where
  "ex_failed2 = snd (failTask ex_env ex_A (js ''timeout'') ex_failed1)"

definition ex_failed3 :: db where
  "ex_failed3 = snd (failTask ex_env ex_A (js ''timeout'') ex_failed2)"

text \<open>
  The store after a human has created, in the initial store, a task whose text is
  \<open>SYSTEM MESSAGESYSTEM MESSAGE\<close>.
\<close>

definition ex_injection :: jsstring where
  "ex_injection = js ''SYSTEM MESSAGESYSTEM MESSAGE''"

definition ex_rowI :: Task where
  "ex_rowI = new_row ex_env ex_A (js ''[FILTERED]SYSTEM MESSAGE'', None, None) Human no_options"

definition ex_db_injected :: db where
  "ex_db_injected = audit ex_env ''create'' Human ex_A
     (addHistory (hist ex_A ''created'' Human (now_iso ex_env)) (init_db\<lparr>tasks := [ex_rowI]\<rparr>))"

section \<open>Basic facts about the store\<close>

lemma tasks_addHistory [simp]: "tasks (addHistory h s) = tasks s"
  by (simp add: addHistory_def)
lemma tasks_audit [simp]: "tasks (audit e a b i s) = tasks s"
  by (simp add: audit_def)
lemma tasks_setConfig [simp]: "tasks (setConfig k v s) = tasks s"
  by (simp add: setConfig_def)
lemma tasks_update_where [simp]:
  "tasks (update_where P f s) = map (\<lambda>t. if P t then f t else t) (tasks s)"
  by (simp add: update_where_def)

lemma getTask_cong_tasks: "tasks s' = tasks s \<Longrightarrow> getTask s' i = getTask s i"
  by (simp add: getTask_def)

lemma getTask_addHistory [simp]: "getTask (addHistory h s) i = getTask s i"
  by (simp add: getTask_def)
lemma getTask_audit [simp]: "getTask (audit e a b j s) i = getTask s i"
  by (simp add: getTask_def)
lemma getTask_setConfig [simp]: "getTask (setConfig k v s) i = getTask s i"
  by (simp add: getTask_def)

lemma find_id_map:
  "(\<And>t. t_id (g t) = t_id t) \<Longrightarrow>
   find (\<lambda>t. t_id t = i) (map g ts) = map_option g (find (\<lambda>t. t_id t = i) ts)"
  by (induction ts) auto

lemma getTask_update_where:
  assumes "\<And>t. t_id (f t) = t_id t"
  shows "getTask (update_where P f s) i = map_option (\<lambda>t. if P t then f t else t) (getTask s i)"
proof -
  have "\<And>t. t_id ((\<lambda>t. if P t then f t else t) t) = t_id t" using assms by simp
  then show ?thesis
    by (simp add: getTask_def find_id_map)
qed

lemma getTask_Some_id: "getTask s i = Some t \<Longrightarrow> t_id t = i \<and> t \<in> set (tasks s) \<and> validateTaskId i"
  by (auto simp: getTask_def find_Some_iff split: if_splits)

lemma id_chars_length: "length id_chars = 36"
  by (simp add: id_chars_def js_def)

lemma id_chars_alnum: "list_all lower_alnum id_chars"
  by (simp add: id_chars_def js_def lower_alnum_def)

lemma validateTaskId_generate: "validateTaskId (generateTaskId rnd)"
proof -
  have "\<And>k. lower_alnum (id_chars ! (k mod 36))"
    using id_chars_alnum id_chars_length by (simp add: list_all_length)
  then show ?thesis
    by (simp add: validateTaskId_def generateTaskId_def LIMITS_def id_chars_length list_all_iff)
qed

lemma pick_id_Some: "pick_id s rnds = Some i \<Longrightarrow> validateTaskId i \<and> getTask s i = None"
  by (auto simp: pick_id_def find_Some_iff validateTaskId_generate)

lemma sql_insert_Inr:
  "sql_insert row s = Inr s' \<Longrightarrow> s' = s\<lparr>tasks := tasks s @ [row]\<rparr> \<and> t_id row \<notin> set (map t_id (tasks s))"
  by (auto simp: sql_insert_def split: if_splits)

lemma find_app:
  "find P (xs @ ys) = (case find P xs of None \<Rightarrow> find P ys | Some x \<Rightarrow> Some x)"
  by (induction xs) auto

lemma find_SomeD2: "find P xs = Some x \<Longrightarrow> P x \<and> x \<in> set xs"
  by (induction xs) (auto split: if_splits)

lemma getTask_append_new:
  "validateTaskId (t_id row) \<Longrightarrow> t_id row \<notin> set (map t_id ts) \<Longrightarrow>
   getTask (s\<lparr>tasks := ts @ [row]\<rparr>) (t_id row) = Some row"
proof -
  assume v: "validateTaskId (t_id row)" and n: "t_id row \<notin> set (map t_id ts)"
  have "find (\<lambda>t. t_id t = t_id row) ts = None"
    using n by (induction ts) auto
  then show ?thesis
    using v by (simp add: getTask_def find_app)
qed

lemma getTask_append_old:
  "getTask (s\<lparr>tasks := ts\<rparr>) j = Some t \<Longrightarrow> getTask (s\<lparr>tasks := ts @ [row]\<rparr>) j = Some t"
  by (auto simp: getTask_def find_app split: option.splits if_splits)

lemma validate_inputs_confirmed [simp]:
  "validate_inputs e text (opts\<lparr>o_confirmed := c\<rparr>) = validate_inputs e text opts"
  by (auto simp: validate_inputs_def split: sum.splits)

lemma check_blocker_confirmed [simp]:
  "check_blocker s i (opts\<lparr>o_confirmed := c\<rparr>) = check_blocker s i opts"
  by (simp add: check_blocker_def)

lemma new_row_confirmed [simp]:
  "new_row e i clean addedBy (opts\<lparr>o_confirmed := c\<rparr>) = new_row e i clean addedBy opts"
  by (simp add: new_row_def)

lemma createTask_Inr:
  assumes "createTask e text addedBy opts s = Some (Inr i, s')"
  shows "\<exists>clean s1 s2. validate_inputs e text opts = Inr clean \<and> pick_id s (draws e) = Some i
     \<and> check_blocker s i opts = None \<and> rate_limit e addedBy s = Inr s1
     \<and> sql_insert (new_row e i clean addedBy opts) s1 = Inr s2 \<and> tasks s' = tasks s2
     \<and> config s' = config s2"
  using assms
  by (auto simp: createTask_def addHistory_def audit_def split: sum.splits option.splits)

text \<open>
  Claim C5. Whenever \<open>createTask\<close> returns an id, the task stored under that id has the status
  \<open>proposed\<close> if the author is the agent and \<open>todo\<close> if the author is a human; and the
  \<open>confirmed\<close> option has no influence at all: the call gives the same result and the same
  store for every value of it.
\<close>
theorem createTask_initial_status:
  assumes "createTask e text addedBy opts s = Some (Inr i, s')"
  shows "(\<exists>t. getTask s' i = Some t \<and> t_added_by t = addedBy
            \<and> t_status t = (if addedBy = Agent then Proposed else Todo))
         \<and> createTask e text addedBy (opts\<lparr>o_confirmed := c\<rparr>) s = createTask e text addedBy opts s"
proof
  show "createTask e text addedBy (opts\<lparr>o_confirmed := c\<rparr>) s = createTask e text addedBy opts s"
    by (simp add: createTask_def split: sum.splits option.splits)
  from createTask_Inr [OF assms] obtain clean s1 s2 where
    p: "pick_id s (draws e) = Some i" and
    r: "sql_insert (new_row e i clean addedBy opts) s1 = Inr s2" and
    s': "tasks s' = tasks s2"
    by blast
  have rid: "t_id (new_row e i clean addedBy opts) = i"
    by (simp add: new_row_def)
  from sql_insert_Inr [OF r] pick_id_Some [OF p] rid
  have "getTask s2 i = Some (new_row e i clean addedBy opts)"
    using getTask_append_new [of "new_row e i clean addedBy opts" "tasks s1" s1] by auto
  then have "getTask s' i = Some (new_row e i clean addedBy opts)"
    using getTask_cong_tasks [OF s'] by simp
  then show "\<exists>t. getTask s' i = Some t \<and> t_added_by t = addedBy
            \<and> t_status t = (if addedBy = Agent then Proposed else Todo)"
    by (simp add: new_row_def)
qed


lemma validateTaskId_nonempty: "validateTaskId i \<Longrightarrow> i \<noteq> []"
  by (auto simp: validateTaskId_def)

lemma blocker_unresolved_iff:
  "blocker_unresolved s task \<longleftrightarrow>
     (\<exists>b blocker. t_blocked_by task = Some b \<and> getTask s b = Some blocker
        \<and> t_status blocker \<noteq> Done \<and> t_status blocker \<noteq> Archived)"
proof (cases "t_blocked_by task")
  case None
  then show ?thesis by (simp add: blocker_unresolved_def)
next
  case (Some b)
  have "getTask s b \<noteq> None \<Longrightarrow> b \<noteq> []"
    using getTask_Some_id validateTaskId_nonempty by blast
  then show ?thesis
    using Some by (auto simp: blocker_unresolved_def split: option.splits)
qed

text \<open>
  Claim C4. For a task that exists, \<open>completeTask\<close> throws \<open>TASK_NOT_CONFIRMED\<close> when the
  status is \<open>proposed\<close>, \<open>TASK_ALREADY_DONE\<close> when it is \<open>done\<close>, and otherwise \<open>TASK_BLOCKED\<close>
  when the task it is blocked by exists and is neither \<open>done\<close> nor \<open>archived\<close>; each time the
  store stays as it is. When the call returns, in the store it leaves the task is \<open>done\<close> with
  \<open>completed_at\<close> set to the time of the call, every task that was blocked by it has
  \<open>blocked_by\<close> null, and no row of the table is blocked by it any more.
\<close>
theorem completeTask_spec:
  assumes g: "getTask s i = Some task"
  shows "(t_status task = Proposed \<longrightarrow>
            completeTask e i actor sid slog tools s = (Some TASK_NOT_CONFIRMED, s))
       \<and> (t_status task = Done \<longrightarrow>
            completeTask e i actor sid slog tools s = (Some TASK_ALREADY_DONE, s))
       \<and> (t_status task \<noteq> Proposed \<and> t_status task \<noteq> Done
            \<and> (\<exists>b blocker. t_blocked_by task = Some b \<and> getTask s b = Some blocker
                  \<and> t_status blocker \<noteq> Done \<and> t_status blocker \<noteq> Archived) \<longrightarrow>
            completeTask e i actor sid slog tools s = (Some TASK_BLOCKED, s))
       \<and> (fst (completeTask e i actor sid slog tools s) = None \<longrightarrow>
            (let s' = snd (completeTask e i actor sid slog tools s) in
               (\<exists>t'. getTask s' i = Some t' \<and> t_status t' = Done
                     \<and> t_completed_at t' = Some (now_iso e))
             \<and> (\<forall>j u. getTask s j = Some u \<and> t_blocked_by u = Some i \<longrightarrow>
                     (\<exists>u'. getTask s' j = Some u' \<and> t_blocked_by u' = None))
             \<and> (\<forall>u \<in> set (tasks s'). t_blocked_by u \<noteq> Some i)))"
proof (intro conjI impI)
  assume "t_status task = Proposed"
  then show "completeTask e i actor sid slog tools s = (Some TASK_NOT_CONFIRMED, s)"
    using g by (simp add: completeTask_def)
next
  assume "t_status task = Done"
  then show "completeTask e i actor sid slog tools s = (Some TASK_ALREADY_DONE, s)"
    using g by (simp add: completeTask_def)
next
  assume "t_status task \<noteq> Proposed \<and> t_status task \<noteq> Done
            \<and> (\<exists>b blocker. t_blocked_by task = Some b \<and> getTask s b = Some blocker
                  \<and> t_status blocker \<noteq> Done \<and> t_status blocker \<noteq> Archived)"
  then have "t_status task \<noteq> Proposed" "t_status task \<noteq> Done" "blocker_unresolved s task"
    by (simp_all add: blocker_unresolved_iff)
  then show "completeTask e i actor sid slog tools s = (Some TASK_BLOCKED, s)"
    using g by (simp add: completeTask_def)
next
  assume ok: "fst (completeTask e i actor sid slog tools s) = None"
  define s1 where "s1 = update_where (\<lambda>t. t_id t = i)
      (\<lambda>t. t\<lparr>t_status := Done, t_completed_at := Some (now_iso e)\<rparr>) s"
  define s' where "s' = snd (completeTask e i actor sid slog tools s)"
  have tasks': "tasks s' = map (\<lambda>t. if t_blocked_by t = Some i then t\<lparr>t_blocked_by := None\<rparr> else t) (tasks s1)"
    using ok g unfolding s'_def s1_def
    by (simp add: completeTask_def split: if_splits)
  have get': "getTask s' j = map_option (\<lambda>t. if t_blocked_by t = Some i then t\<lparr>t_blocked_by := None\<rparr> else t) (getTask s1 j)" for j
  proof -
    have "tasks s' = tasks (update_where (\<lambda>t. t_blocked_by t = Some i) (\<lambda>t. t\<lparr>t_blocked_by := None\<rparr>) s1)"
      using tasks' by simp
    then have "getTask s' j = getTask (update_where (\<lambda>t. t_blocked_by t = Some i) (\<lambda>t. t\<lparr>t_blocked_by := None\<rparr>) s1) j"
      by (rule getTask_cong_tasks)
    then show ?thesis by (simp add: getTask_update_where)
  qed
  have get1: "getTask s1 j = map_option (\<lambda>t. if t_id t = i then t\<lparr>t_status := Done, t_completed_at := Some (now_iso e)\<rparr> else t) (getTask s j)" for j
    unfolding s1_def by (simp add: getTask_update_where)
  have a: "\<exists>t'. getTask s' i = Some t' \<and> t_status t' = Done \<and> t_completed_at t' = Some (now_iso e)"
    using g getTask_Some_id [OF g] by (simp add: get' get1)
  have b: "\<forall>j u. getTask s j = Some u \<and> t_blocked_by u = Some i \<longrightarrow>
                     (\<exists>u'. getTask s' j = Some u' \<and> t_blocked_by u' = None)"
    by (auto simp: get' get1)
  have c: "\<forall>u \<in> set (tasks s'). t_blocked_by u \<noteq> Some i"
    by (auto simp: tasks')
  show "let s' = snd (completeTask e i actor sid slog tools s) in
               (\<exists>t'. getTask s' i = Some t' \<and> t_status t' = Done
                     \<and> t_completed_at t' = Some (now_iso e))
             \<and> (\<forall>j u. getTask s j = Some u \<and> t_blocked_by u = Some i \<longrightarrow>
                     (\<exists>u'. getTask s' j = Some u' \<and> t_blocked_by u' = None))
             \<and> (\<forall>u \<in> set (tasks s'). t_blocked_by u \<noteq> Some i)"
    using a b c unfolding s'_def Let_def by blast
qed

lemma replace_g_nil [simp]: "replace_g r k p [] = []"
  by simp

lemma stripInjectionPatterns_nil [simp]: "stripInjectionPatterns [] = []"
  by (simp add: stripInjectionPatterns_def INJECTION_PATTERNS_def replace_all_def)

lemma stripControlChars_nil [simp]: "stripControlChars [] = []"
  by (simp add: stripControlChars_def)

lemma sanitizeNotes_eq:
  "sanitizeNotes (Some note) =
     (let clean = stripInjectionPatterns (stripControlChars note) in
      if length clean > 5000 then Inl (NotesTooLong (length clean)) else Inr clean)"
  by (cases "note = []") (simp_all add: sanitizeNotes_def LIMITS_def Let_def)

lemma map_option_getTask_other:
  "j \<noteq> i \<Longrightarrow> map_option (\<lambda>t. if t_id t = i then f t else t) (getTask s j) = getTask s j"
  by (cases "getTask s j") (auto dest: getTask_Some_id)

text \<open>
  Claim C9. For a task that exists, \<open>addNote\<close> cleans the note (control characters, then
  injection patterns), puts the date of the day in brackets before it, and appends that to the
  notes of the task after a newline (or stores it alone when the task has no notes). When the
  cleaned note, or the combined text, is longer than 5000 it throws (\<open>Notes too long\<close>, or
  \<open>TEXT_TOO_LONG\<close> with the combined length) and the store stays exactly as it is; otherwise
  the task's notes are the combined text and no other task changes.
\<close>
theorem addNote_spec:
  assumes g: "getTask s i = Some task"
  shows "let cleanNote = stripInjectionPatterns (stripControlChars note);
             newNote = js ''['' @ date_part (now_iso e) @ js ''] '' @ cleanNote;
             updated = (if truthy (t_notes task) then the (t_notes task) @ [10] @ newNote else newNote);
             r = addNote e i note actor s
         in (if length cleanNote > 5000 then r = (Some (NotesTooLong (length cleanNote)), s)
             else if length updated > 5000 then r = (Some (TEXT_TOO_LONG (length updated)), s)
             else fst r = None \<and> getTask (snd r) i = Some (task\<lparr>t_notes := Some updated\<rparr>)
                  \<and> (\<forall>j. j \<noteq> i \<longrightarrow> getTask (snd r) j = getTask s j))"
  using g getTask_Some_id [OF g]
  by (auto simp: addNote_def sanitizeNotes_eq Let_def LIMITS_def getTask_update_where
      map_option_getTask_other split: option.splits)


lemma rate_limit_count:
  "5 \<le> countProposed s \<Longrightarrow>
   rate_limit e Agent s = Inl (RATE_LIMIT_EXCEEDED (ProposedCount (countProposed s)))"
  by (simp add: rate_limit_def Let_def)

lemma rate_limit_cooldown:
  "countProposed s < 5 \<Longrightarrow> getConfig s last_agent_proposal = Some stamp \<Longrightarrow> stamp \<noteq> [] \<Longrightarrow>
   parseInt stamp = Some t \<Longrightarrow> now_ms e - t < 60000 \<Longrightarrow>
   rate_limit e Agent s = Inl (RATE_LIMIT_EXCEEDED (CooldownSec (ceil_div (60000 - (now_ms e - t)) 1000)))"
  by (simp add: rate_limit_def Let_def)

lemma rate_limited_error:
  "rate_limited e s \<Longrightarrow> rate_limit e Agent s = Inl (rate_error e s)"
  unfolding rate_limited_def rate_error_def
  using rate_limit_count [of s e] rate_limit_cooldown [of s _ _ e]
  by (cases "5 \<le> countProposed s") auto

text \<open>
  Claim C6. Let the rate limit apply: five or more agent proposals are waiting, or the stored time
  of the last agent proposal is less than 60 seconds ago. Then a \<open>createTask\<close> call of the agent
  never creates a task: if it returns, it throws and leaves the store as it is. And when its
  inputs pass the checks that come before the rate limit (sanitizing, tag and date format, a free
  id, the blocker), it throws \<open>RATE_LIMIT_EXCEEDED\<close> with the count of waiting proposals, or
  else with the seconds still to wait, before any row is written.
\<close>
theorem createTask_rate_limit:
  assumes rl: "rate_limited e s"
  shows "(createTask e text Agent opts s = None
          \<or> (\<exists>err. createTask e text Agent opts s = Some (Inl err, s)))
       \<and> (\<forall>clean i. validate_inputs e text opts = Inr clean \<and> pick_id s (draws e) = Some i
              \<and> check_blocker s i opts = None \<longrightarrow>
            createTask e text Agent opts s = Some (Inl (rate_error e s), s))"
  using rate_limited_error [OF rl]
  by (auto simp: createTask_def split: sum.splits option.splits)

lemma set_insert_row: "set (insert_row x ys) = insert x (set ys)"
  by (induction ys) auto

lemma set_order_rows: "set (order_rows xs) = set xs"
  by (induction xs) (auto simp: order_rows_def set_insert_row)

lemma set_listTasks: "set (listTasks s f) = {t \<in> set (tasks s). matches_filters f t}"
  by (auto simp: listTasks_def set_order_rows)

lemma matches_active_filter:
  "matches_filters active_filter t \<longleftrightarrow> t_status t \<in> {Todo, InProgress, Proposed}"
  by (auto simp: matches_filters_def active_filter_def no_filters_def)

lemma urgent_foldl:
  "urgent (foldl (categorize today st) r xs) =
     urgent r @ filter (\<lambda>t. t_urgency t = Now \<and> (t_status t = Todo \<or> t_status t = InProgress)) xs"
  by (induction xs arbitrary: r) (auto simp: categorize_def Let_def)

lemma overdue_foldl:
  "overdue (foldl (categorize today st) r xs) =
     overdue r @ filter (\<lambda>t. truthy (t_due_date t) \<and> str_less (the (t_due_date t)) today
         \<and> (t_status t = Todo \<or> t_status t = InProgress)) xs"
  by (induction xs arbitrary: r) (auto simp: categorize_def Let_def)

text \<open>
  Claim C10. \<open>generateInbox\<close> fetches the tasks whose status is \<open>todo\<close>, \<open>in_progress\<close> or
  \<open>proposed\<close>. Its urgent bucket holds exactly the fetched tasks with urgency \<open>now\<close> and status
  \<open>todo\<close> or \<open>in_progress\<close>; its overdue bucket holds exactly the fetched tasks with a due date
  before today's date and status \<open>todo\<close> or \<open>in_progress\<close>; a fetched task that meets both
  conditions is in both buckets.
\<close>
theorem generateInbox_urgent_overdue:
  "let inbox = generateInbox e s;
       today = date_part (now_iso e);
       fetched = listTasks s active_filter;
       active = (\<lambda>t. t_status t = Todo \<or> t_status t = InProgress);
       is_urgent = (\<lambda>t. t_urgency t = Now \<and> active t);
       is_overdue = (\<lambda>t. truthy (t_due_date t) \<and> str_less (the (t_due_date t)) today \<and> active t)
   in set fetched = {t \<in> set (tasks s). t_status t \<in> {Todo, InProgress, Proposed}}
      \<and> urgent inbox = filter is_urgent fetched
      \<and> overdue inbox = filter is_overdue fetched
      \<and> (\<forall>t \<in> set fetched. (t \<in> set (urgent inbox) \<longleftrightarrow> is_urgent t)
             \<and> (t \<in> set (overdue inbox) \<longleftrightarrow> is_overdue t)
             \<and> (is_urgent t \<and> is_overdue t \<longrightarrow> t \<in> set (urgent inbox) \<and> t \<in> set (overdue inbox)))"
proof -
  have u: "urgent (generateInbox e s) = filter (\<lambda>t. t_urgency t = Now \<and> (t_status t = Todo \<or> t_status t = InProgress)) (listTasks s active_filter)"
    by (simp add: generateInbox_def Let_def urgent_foldl)
  have ov: "overdue (generateInbox e s) = filter (\<lambda>t. truthy (t_due_date t) \<and> str_less (the (t_due_date t)) (date_part (now_iso e))
         \<and> (t_status t = Todo \<or> t_status t = InProgress)) (listTasks s active_filter)"
    by (simp add: generateInbox_def Let_def overdue_foldl)
  have f: "set (listTasks s active_filter) = {t \<in> set (tasks s). t_status t \<in> {Todo, InProgress, Proposed}}"
    by (simp add: set_listTasks matches_active_filter)
  show ?thesis
    unfolding Let_def u ov by (auto simp: f)
qed

lemma stripControlChars_printable: "list_all printable (stripControlChars x)"
  by (auto simp: stripControlChars_def printable_def list_all_iff)

lemma stripControlChars_id: "list_all printable x \<Longrightarrow> stripControlChars x = x"
  by (induction x) (auto simp: stripControlChars_def printable_def)

lemma FILTERED_printable: "list_all printable FILTERED"
  by (simp add: FILTERED_def js_def printable_def ascii_control_def unicode_control_def)

lemma marker_printable: "list_all printable truncate_marker"
  by (simp add: truncate_marker_def js_def printable_def ascii_control_def unicode_control_def)

lemma replace_g_printable:
  "list_all printable x \<Longrightarrow> list_all printable (replace_g r k p x)"
  using FILTERED_printable
  by (induction x arbitrary: k p) (auto split: nat.splits option.splits)

lemma stripInjectionPatterns_printable:
  assumes "list_all printable x"
  shows "list_all printable (stripInjectionPatterns x)"
proof -
  have "list_all printable (foldl (\<lambda>cleaned pattern. replace_all pattern cleaned) y ps)"
    if "list_all printable y" for y ps
    using that by (induction ps arbitrary: y) (auto simp: replace_all_def replace_g_printable)
  then show ?thesis using assms by (simp add: stripInjectionPatterns_def)
qed

lemma truncate_js_printable:
  "list_all printable t \<Longrightarrow> list_all printable (truncate_js (Some t) n)"
  using marker_printable
  by (auto simp: truncate_js_def list_all_iff dest: in_set_takeD)

lemma sanitize_printable: "list_all printable (sanitize x n)"
  by (auto simp: sanitize_def intro!: truncate_js_printable stripInjectionPatterns_printable
      stripControlChars_printable)

lemma marker_length: "length truncate_marker = 15"
  by (simp add: truncate_marker_def js_def)

lemma truncate_js_idem: "truncate_js (Some (truncate_js t n)) n = truncate_js t n"
proof (cases t)
  case None
  then show ?thesis by (simp add: truncate_js_def)
next
  case (Some x)
  show ?thesis
  proof (cases "x = [] \<or> int (length x) \<le> n")
    case True
    then show ?thesis using Some by (auto simp: truncate_js_def)
  next
    case False
    then have long: "n < int (length x)" and xne: "x \<noteq> []" by simp_all
    show ?thesis
    proof (cases "n < 15")
      case True
      then show ?thesis using Some long xne marker_length
        by (auto simp: truncate_js_def)
    next
      case False
      then have lt: "nat (n - 15) < length x"
        using long by linarith
      have "length (take (nat (n - 15)) x @ truncate_marker) = nat (n - 15) + 15"
        using lt marker_length by simp
      also have "\<dots> = nat n"
        using False by linarith
      finally have len: "int (length (take (nat (n - 15)) x @ truncate_marker)) = n"
        using False by simp
      have ne: "take (nat (n - 15)) x @ truncate_marker \<noteq> []"
        using marker_length by auto
      have first: "truncate_js (Some x) n = take (nat (n - 15)) x @ truncate_marker"
        using long xne marker_length by (auto simp: truncate_js_def)
      have "truncate_js (Some (take (nat (n - 15)) x @ truncate_marker)) n
          = take (nat (n - 15)) x @ truncate_marker"
        using len ne by (simp add: truncate_js_def)
      then show ?thesis using Some first by simp
    qed
  qed
qed

lemma sanitize_stages_stable:
  "stripControlChars (sanitize x n) = sanitize x n
   \<and> truncate_js (Some (sanitize x n)) n = sanitize x n"
proof
  show "stripControlChars (sanitize x n) = sanitize x n"
    by (rule stripControlChars_id [OF sanitize_printable])
  show "truncate_js (Some (sanitize x n)) n = sanitize x n"
    by (simp add: sanitize_def truncate_js_idem) (simp add: truncate_js_def)
qed

section \<open>What each operation leaves unchanged\<close>

lemma unchanged_perm_refl [simp]: "unchanged_perm t t"
  by (simp add: unchanged_perm_def)

lemma unchanged_perm_trans: "unchanged_perm a b \<Longrightarrow> unchanged_perm b c \<Longrightarrow> unchanged_perm a c"
  by (simp add: unchanged_perm_def)

lemma list_all2_map_self: "(\<And>t. R t (g t)) \<Longrightarrow> list_all2 R ts (map g ts)"
  by (simp add: list_all2_map2 list_all2_same)

lemma perm_update_where:
  "(\<And>t. unchanged_perm t (f t)) \<Longrightarrow>
   list_all2 unchanged_perm ts (map (\<lambda>t. if P t then f t else t) ts)"
  by (rule list_all2_map_self) simp

lemma perm_refl: "list_all2 unchanged_perm ts ts"
  by (simp add: list_all2_same)

lemma perm_trans:
  "list_all2 unchanged_perm as bs \<Longrightarrow> list_all2 unchanged_perm bs cs \<Longrightarrow> list_all2 unchanged_perm as cs"
  by (rule list_all2_trans [of unchanged_perm unchanged_perm unchanged_perm])
     (auto intro: unchanged_perm_trans)

lemma find_list_all2:
  assumes "list_all2 R xs ys" and "\<And>a b. R a b \<Longrightarrow> t_id b = t_id a"
    and "find (\<lambda>t. t_id t = i) xs = Some t"
  shows "\<exists>t'. find (\<lambda>t. t_id t = i) ys = Some t' \<and> R t t'"
  using assms(1,3)
proof (induction arbitrary: t rule: list_all2_induct)
  case Nil
  then show ?case by simp
next
  case (Cons x xs y ys)
  then show ?case using assms(2) [of x y] by (auto split: if_splits)
qed

lemma getTask_list_all2:
  assumes "list_all2 R (tasks s) (tasks s')" and "\<And>a b. R a b \<Longrightarrow> t_id b = t_id a"
    and "getTask s i = Some t"
  shows "\<exists>t'. getTask s' i = Some t' \<and> R t t'"
  using find_list_all2 [OF assms(1,2)] assms(3)
  by (auto simp: getTask_def split: if_splits)

lemma set_clause_perm: "set_clause u = Inr (Some f) \<Longrightarrow> unchanged_perm t (f t)"
  by (cases u) (auto simp: unchanged_perm_def split: sum.splits)

lemma set_clauses_perm:
  "set_clauses us = Inr cs \<Longrightarrow> f \<in> set cs \<Longrightarrow> unchanged_perm t (f t)"
proof (induction us arbitrary: cs)
  case Nil
  then show ?case by simp
next
  case (Cons u us)
  then show ?case
    by (auto split: sum.splits option.splits dest: set_clause_perm)
qed

lemma foldl_clauses_perm:
  "(\<And>f t. f \<in> set cs \<Longrightarrow> unchanged_perm t (f t)) \<Longrightarrow>
   unchanged_perm t (foldl (\<lambda>row f. f row) t cs)"
proof (induction cs arbitrary: t)
  case Nil
  then show ?case by simp
next
  case (Cons c cs)
  have "unchanged_perm t (c t)" using Cons.prems by simp
  moreover have "unchanged_perm (c t) (foldl (\<lambda>row f. f row) (c t) cs)"
    using Cons by simp
  ultimately show ?case using unchanged_perm_trans by simp
qed

lemma sql_update_Inr:
  "sql_update i f s = Inr s1 \<Longrightarrow> tasks s1 = map (\<lambda>t. if t_id t = i then f t else t) (tasks s)
     \<and> config s1 = config s \<and> task_history s1 = task_history s"
  by (auto simp: sql_update_def Let_def split: if_splits)

lemma updateTask_perm:
  "updateTask e i us actor s = (r, s') \<Longrightarrow> list_all2 unchanged_perm (tasks s) (tasks s')"
  by (auto simp: updateTask_def perm_refl split: if_splits option.splits sum.splits
      dest!: sql_update_Inr intro!: perm_update_where foldl_clauses_perm set_clauses_perm)

lemma bulk_complete_one_perm:
  "list_all2 unchanged_perm (tasks (fst acc)) (tasks (fst (bulk_complete_one e a acc x)))"
proof -
  have 1: "list_all2 unchanged_perm (tasks (fst acc))
      (map (\<lambda>t. if t_id t = t_id x then t\<lparr>t_status := Done, t_completed_at := Some (now_iso e)\<rparr> else t) (tasks (fst acc)))"
    by (rule perm_update_where) (simp add: unchanged_perm_def)
  have 2: "list_all2 unchanged_perm ts
      (map (\<lambda>t. if t_blocked_by t = Some (t_id x) then t\<lparr>t_blocked_by := None\<rparr> else t) ts)" for ts
    by (rule perm_update_where) (simp add: unchanged_perm_def)
  show ?thesis
    using perm_trans [OF 1 2] by (simp add: bulk_complete_one_def perm_refl)
qed

lemma bulk_archive_one_perm:
  "list_all2 unchanged_perm (tasks (fst acc)) (tasks (fst (bulk_archive_one e a acc x)))"
proof -
  have 1: "list_all2 unchanged_perm (tasks (fst acc))
      (map (\<lambda>t. if t_id t = t_id x then t\<lparr>t_status := Archived\<rparr> else t) (tasks (fst acc)))"
    by (rule perm_update_where) (simp add: unchanged_perm_def)
  show ?thesis
    using 1 by (simp add: bulk_archive_one_def perm_refl)
qed

lemma foldl_perm:
  assumes "\<And>acc x. list_all2 unchanged_perm (tasks (fst acc)) (tasks (fst (stepf acc x)))"
  shows "list_all2 unchanged_perm (tasks (fst acc)) (tasks (fst (foldl stepf acc xs)))"
proof (induction xs arbitrary: acc)
  case Nil
  then show ?case by (simp add: perm_refl)
next
  case (Cons x xs)
  show ?case using perm_trans [OF assms [of acc x] Cons [of "stepf acc x"]] by simp
qed

lemma bulkComplete_perm: "list_all2 unchanged_perm (tasks s) (tasks (snd (bulkComplete e f a s)))"
  using foldl_perm [of "bulk_complete_one e a" "(s, 0)" "listTasks s f", OF bulk_complete_one_perm]
  by (simp add: bulkComplete_def Let_def)

lemma bulkArchive_perm: "list_all2 unchanged_perm (tasks s) (tasks (snd (bulkArchive e f a s)))"
  using foldl_perm [of "bulk_archive_one e a" "(s, 0)" "listTasks s f", OF bulk_archive_one_perm]
  by (simp add: bulkArchive_def Let_def)

lemma startTask_perm: "startTask e i a s = (r, s') \<Longrightarrow> list_all2 unchanged_perm (tasks s) (tasks s')"
  by (auto simp: startTask_def perm_refl unchanged_perm_def split: option.splits if_splits
      intro!: perm_update_where)

lemma completeTask_perm:
  assumes "completeTask e i a sid slog tools s = (r, s')"
  shows "list_all2 unchanged_perm (tasks s) (tasks s')"
proof -
  have 1: "list_all2 unchanged_perm (tasks s)
      (map (\<lambda>t. if t_id t = i then t\<lparr>t_status := Done, t_completed_at := Some (now_iso e)\<rparr> else t) (tasks s))"
    by (rule perm_update_where) (simp add: unchanged_perm_def)
  have 2: "list_all2 unchanged_perm ts
      (map (\<lambda>t. if t_blocked_by t = Some i then t\<lparr>t_blocked_by := None\<rparr> else t) ts)" for ts
    by (rule perm_update_where) (simp add: unchanged_perm_def)
  show ?thesis
    using assms perm_trans [OF 1 2]
    by (auto simp: completeTask_def perm_refl split: option.splits if_splits)
qed

lemma archiveTask_perm: "archiveTask e i a s = (r, s') \<Longrightarrow> list_all2 unchanged_perm (tasks s) (tasks s')"
  by (auto simp: archiveTask_def perm_refl unchanged_perm_def split: option.splits if_splits
      intro!: perm_update_where)

lemma unarchiveTask_perm: "unarchiveTask e i a s = (r, s') \<Longrightarrow> list_all2 unchanged_perm (tasks s) (tasks s')"
  by (auto simp: unarchiveTask_def perm_refl unchanged_perm_def split: option.splits if_splits
      intro!: perm_update_where)

lemma confirmTask_perm: "confirmTask e i a s = (r, s') \<Longrightarrow> list_all2 unchanged_perm (tasks s) (tasks s')"
  by (auto simp: confirmTask_def perm_refl unchanged_perm_def split: option.splits if_splits
      intro!: perm_update_where)

lemma rejectTask_perm: "rejectTask e i a why s = (r, s') \<Longrightarrow> list_all2 unchanged_perm (tasks s) (tasks s')"
  by (auto simp: rejectTask_def perm_refl unchanged_perm_def split: option.splits if_splits
      intro!: perm_update_where)

lemma blockTask_perm: "blockTask e i b a s = (r, s') \<Longrightarrow> list_all2 unchanged_perm (tasks s) (tasks s')"
  by (auto simp: blockTask_def perm_refl unchanged_perm_def split: option.splits if_splits
      intro!: perm_update_where)

lemma unblockTask_perm: "unblockTask e i a s = (r, s') \<Longrightarrow> list_all2 unchanged_perm (tasks s) (tasks s')"
  by (auto simp: unblockTask_def perm_refl unchanged_perm_def split: option.splits if_splits
      intro!: perm_update_where)

lemma addNote_perm: "addNote e i n a s = (r, s') \<Longrightarrow> list_all2 unchanged_perm (tasks s) (tasks s')"
  by (auto simp: addNote_def Let_def perm_refl unchanged_perm_def split: option.splits if_splits sum.splits
      intro!: perm_update_where)

lemma canRetry_perm: "list_all2 unchanged_perm (tasks s) (tasks (snd (canRetry e i s)))"
  by (auto simp: canRetry_def Let_def perm_refl unchanged_perm_def intro!: perm_update_where)

lemma acquireLock_tasks: "tasks (snd (acquireLock e k s)) = tasks s"
  by (simp add: acquireLock_def)

lemma releaseLock_tasks: "tasks (releaseLock k s) = tasks s"
  by (simp add: releaseLock_def)

lemma rate_limit_tasks: "rate_limit e a s = Inr s1 \<Longrightarrow> tasks s1 = tasks s"
  by (auto simp: rate_limit_def Let_def split: if_splits)

lemma createTask_tasks:
  assumes "createTask e text a opts s = Some (r, s')"
  shows "tasks s' = tasks s
       \<or> (\<exists>i clean. r = Inr i \<and> pick_id s (draws e) = Some i
             \<and> tasks s' = tasks s @ [new_row e i clean a opts] \<and> i \<notin> set (map t_id (tasks s)))"
  using assms
  by (auto simp: createTask_def new_row_def split: sum.splits option.splits
      dest!: sql_insert_Inr rate_limit_tasks)

section \<open>Evaluation on the example stores\<close>

lemma js_eq_iff [simp]: "js a = js b \<longleftrightarrow> a = b"
  by (simp add: js_def inj_map_eq_map inj_on_def)

lemma js_Nil [simp]: "js s = [] \<longleftrightarrow> s = []"
  by (simp add: js_def)

lemma ex_env_simps [simp]:
  "now_ms ex_env = 1700000000000"
  "now_iso ex_env = js ''2023-11-14T22:13:20.000Z''"
  "date_parses ex_env d = True"
  by (simp_all add: ex_env_def)

lemma init_db_simps [simp]:
  "tasks init_db = []" "task_history init_db = []" "auditQueue init_db = []"
  by (simp_all add: init_db_def)

lemma no_options_simps [simp]:
  "o_autonomy no_options = None" "o_urgency no_options = None" "o_project no_options = None"
  "o_context no_options = None" "o_dueDate no_options = None" "o_blockedBy no_options = None"
  "o_confirmed no_options = None"
  by (simp_all add: no_options_def)

lemma ex_ids_distinct [simp]: "ex_A \<noteq> ex_B" "ex_B \<noteq> ex_A" "ex_A \<noteq> ex_C" "ex_C \<noteq> ex_A" "ex_B \<noteq> ex_C" "ex_C \<noteq> ex_B"
  by (simp_all add: ex_A_def ex_B_def ex_C_def)

lemma ex_generate [simp]:
  "generateTaskId (\<lambda>k. 0) = ex_A" "generateTaskId (\<lambda>k. Suc 0) = ex_B" "generateTaskId (\<lambda>k. 2) = ex_C"
  by (simp_all add: generateTaskId_def LIMITS_def id_chars_def js_def ex_A_def ex_B_def ex_C_def upt_rec)

lemmas san_defs = stripInjectionPatterns_def stripControlChars_def
  INJECTION_PATTERNS_def alts_def replace_all_def match_len_def FILTERED_def
  is_space_def is_word_def canon_def ascii_control_def unicode_control_def

lemma ex_sanitize_task: "sanitizeText (js ''task'') = Inr (js ''task'')"
  by (simp add: sanitizeText_def san_defs js_def trim_def LIMITS_def)

lemma sanitizeTag_None [simp]: "sanitizeTag None = Inr None"
  by (simp add: sanitizeTag_def)

lemma ex_validate: "validate_inputs ex_env (js ''task'') no_options = Inr ex_clean"
  by (simp add: validate_inputs_def ex_sanitize_task ex_clean_def)

lemma ex_ids_nonempty [simp]: "ex_A \<noteq> []" "ex_B \<noteq> []" "ex_C \<noteq> []"
  by (simp_all add: ex_A_def ex_B_def ex_C_def)

lemma ex_valid_ids [simp]: "validateTaskId ex_A" "validateTaskId ex_B" "validateTaskId ex_C"
  by (simp_all add: validateTaskId_def ex_A_def ex_B_def ex_C_def js_def LIMITS_def lower_alnum_def)

lemma ex_draws: "draws ex_env = [\<lambda>k. 0, \<lambda>k. Suc 0, \<lambda>k. 2]"
  by (simp add: ex_env_def)

lemma ex_pick_init: "pick_id init_db (draws ex_env) = Some ex_A"
  by (simp add: pick_id_def getTask_def ex_draws)

lemma check_blocker_none [simp]: "o_blockedBy opts = None \<Longrightarrow> check_blocker s i opts = None"
  by (simp add: check_blocker_def)

lemma rate_limit_human [simp]: "rate_limit e Human s = Inr s"
  by (simp add: rate_limit_def)

lemma ex_rowA_simps [simp]:
  "t_id ex_rowA = ex_A" "t_text ex_rowA = js ''task''" "t_status ex_rowA = Todo"
  "t_autonomy ex_rowA = Collab" "t_urgency ex_rowA = Whenever"
  "t_project ex_rowA = None" "t_context ex_rowA = None" "t_due_date ex_rowA = None"
  "t_blocked_by ex_rowA = None" "t_added_by ex_rowA = Human" "t_notes ex_rowA = None"
  "t_attempts ex_rowA = 0"
  by (simp_all add: ex_rowA_def new_row_def ex_clean_def or_null_def)

lemma ex_check_rowA: "check_row ex_rowA"
  by (simp add: check_row_def) (simp add: ex_A_def js_def lower_alnum_def sqlite_trim_def)

lemma ex_insert_A: "sql_insert ex_rowA init_db = Inr (init_db\<lparr>tasks := [ex_rowA]\<rparr>)"
  by (simp add: sql_insert_def ex_check_rowA fk_ok_def)

lemma hist_notes_None [simp]: "(hist i a b ts)\<lparr>h_notes := None\<rparr> = hist i a b ts"
  by (simp add: hist_def)

lemma ex_create_human:
  "createTask ex_env (js ''task'') Human no_options init_db = Some (Inr ex_A, ex_db1)"
  by (simp add: createTask_def ex_validate ex_pick_init ex_insert_A [unfolded ex_rowA_def] ex_db1_def ex_rowA_def)

lemma ex_db1_tasks [simp]: "tasks ex_db1 = [ex_rowA]"
  by (simp add: ex_db1_def)

lemma ex_db1_get [simp]: "getTask ex_db1 ex_A = Some ex_rowA"
  by (simp add: getTask_def)

lemma ex_db1_reachable: "reachable ex_db1"
proof -
  have "step ex_env (CreateTask (js ''task'') Human no_options) init_db = Some (None, ex_db1)"
    by (simp add: ex_create_human)
  then show ?thesis using reachable.call [OF reachable.init] by blast
qed

lemma ex_update_sql:
  "sql_update ex_A (\<lambda>t. t\<lparr>t_blocked_by := Some ex_A\<rparr>) ex_db1
     = Inr (ex_db1\<lparr>tasks := [ex_rowA\<lparr>t_blocked_by := Some ex_A\<rparr>]\<rparr>)"
proof -
  have "check_row (ex_rowA\<lparr>t_blocked_by := Some ex_A\<rparr>)"
    using ex_check_rowA by (simp add: check_row_def)
  then show ?thesis
    by (simp add: sql_update_def fk_ok_def)
qed

lemma ex_update_eval:
  "updateTask ex_env ex_A [UBlockedBy (Some ex_A)] Human ex_db1
     = (None, audit ex_env ''update'' Human ex_A
          (addHistory ((hist ex_A ''updated'' Human (now_iso ex_env))
             \<lparr>h_old_value := Some ex_rowA, h_new_value := Some (ex_rowA\<lparr>t_blocked_by := Some ex_A\<rparr>)\<rparr>)
             (ex_db1\<lparr>tasks := [ex_rowA\<lparr>t_blocked_by := Some ex_A\<rparr>]\<rparr>)))"
  by (simp add: updateTask_def ex_update_sql) (simp add: getTask_def)

lemma blockTask_self_refused:
  "fst (blockTask ex_env ex_A ex_A Human ex_db1) = Some CIRCULAR_DEPENDENCY"
proof -
  have "detectBlockerCycle ex_db1 ex_A ex_A"
    by (simp add: detectBlockerCycle_def walk_chain.simps)
  then show ?thesis
    by (simp add: blockTask_def)
qed

text \<open>
  Claim C2: the code does not keep it. \<open>updateTask\<close> writes \<open>blocked_by\<close> without the cycle
  check that \<open>blockTask\<close> and \<open>createTask\<close> make. In the store that holds one task, created by a
  human, \<open>updateTask(id, { blockedBy: id })\<close> returns normally and the task is then blocked by
  itself, while \<open>blockTask(id, id)\<close> on the same store throws \<open>CIRCULAR_DEPENDENCY\<close>.
\<close>
theorem updateTask_self_block:
  "reachable ex_db1
   \<and> map_option t_blocked_by (getTask ex_db1 ex_A) = Some None
   \<and> fst (updateTask ex_env ex_A [UBlockedBy (Some ex_A)] Human ex_db1) = None
   \<and> map_option t_blocked_by (getTask ex_self_blocked ex_A) = Some (Some ex_A)"
  using ex_db1_reachable
  by (simp add: ex_self_blocked_def ex_update_eval) (simp add: getTask_def)

section \<open>Invariants of reachable stores and the autonomy level\<close>

lemma perm_ids: "list_all2 unchanged_perm ts ts' \<Longrightarrow> map t_id ts' = map t_id ts"
  by (induction rule: list_all2_induct) (auto simp: unchanged_perm_def)

lemma perm_inv:
  "list_all2 unchanged_perm (tasks s) (tasks s') \<Longrightarrow> demoted_inv s \<Longrightarrow> demoted_inv s'"
  unfolding demoted_inv_def
  by (induction rule: list_all2_induct) (auto simp: unchanged_perm_def)

lemma step_perm:
  assumes "step e c s = Some (r, s')"
    and "case c of FailTask i x \<Rightarrow> False | CreateTask t a opts \<Rightarrow> False | _ \<Rightarrow> True"
  shows "list_all2 unchanged_perm (tasks s) (tasks s')"
proof (cases c)
  case (UpdateTask i us a)
  then show ?thesis using assms updateTask_perm by auto
next
  case (StartTask i a)
  then show ?thesis using assms startTask_perm by auto
next
  case (CompleteTask i a sid slog tools)
  then show ?thesis using assms completeTask_perm by auto
next
  case (ArchiveTask i a)
  then show ?thesis using assms archiveTask_perm by auto
next
  case (UnarchiveTask i a)
  then show ?thesis using assms unarchiveTask_perm by auto
next
  case (BulkComplete f a)
  then show ?thesis using assms bulkComplete_perm [of s e f a] by auto
next
  case (BulkArchive f a)
  then show ?thesis using assms bulkArchive_perm [of s e f a] by auto
next
  case (ConfirmTask i a)
  then show ?thesis using assms confirmTask_perm by auto
next
  case (RejectTask i a why)
  then show ?thesis using assms rejectTask_perm by auto
next
  case (BlockTask i b a)
  then show ?thesis using assms blockTask_perm by auto
next
  case (UnblockTask i a)
  then show ?thesis using assms unblockTask_perm by auto
next
  case (AddNote i n a)
  then show ?thesis using assms addNote_perm by auto
next
  case (SetConfig k v)
  then show ?thesis using assms by (auto simp: perm_refl)
next
  case (AcquireLock k)
  then show ?thesis using assms by (auto simp: perm_refl acquireLock_tasks)
next
  case (ReleaseLock k)
  then show ?thesis using assms by (auto simp: perm_refl releaseLock_tasks)
next
  case (CanRetry i)
  then show ?thesis using assms canRetry_perm [of s e i] by auto
qed (use assms in auto)

lemma failTask_tasks:
  "failTask e j reason s = (r, s') \<Longrightarrow>
   tasks s' = tasks s \<or> (\<exists>task. getTask s j = Some task
      \<and> tasks s' = map (\<lambda>t. if t_id t = j then fail_row e task t else t) (tasks s))"
  by (auto simp: failTask_def Let_def fail_row_def split: option.splits)

lemma fail_row_id [simp]: "t_id (fail_row e task t) = t_id t"
  by (simp add: fail_row_def)

lemma failTask_ids: "failTask e j reason s = (r, s') \<Longrightarrow> map t_id (tasks s') = map t_id (tasks s)"
  by (auto dest!: failTask_tasks)

lemma failTask_inv: "failTask e j reason s = (r, s') \<Longrightarrow> demoted_inv s \<Longrightarrow> demoted_inv s'"
  by (auto dest!: failTask_tasks simp: demoted_inv_def fail_row_def split: if_splits)

lemma createTask_ids:
  "createTask e text a opts s = Some (r, s') \<Longrightarrow> distinct (map t_id (tasks s)) \<Longrightarrow>
   distinct (map t_id (tasks s'))"
  by (auto dest!: createTask_tasks simp: new_row_def)

lemma createTask_inv:
  "createTask e text a opts s = Some (r, s') \<Longrightarrow> demoted_inv s \<Longrightarrow> demoted_inv s'"
  by (auto dest!: createTask_tasks simp: new_row_def demoted_inv_def)

lemma step_inv:
  assumes "step e c s = Some (r, s')" and "demoted_inv s \<and> distinct (map t_id (tasks s))"
  shows "demoted_inv s' \<and> distinct (map t_id (tasks s'))"
proof (cases "case c of FailTask i x \<Rightarrow> False | CreateTask t a opts \<Rightarrow> False | _ \<Rightarrow> True")
  case True
  from step_perm [OF assms(1) True] show ?thesis
    using assms(2) perm_inv perm_ids by metis
next
  case False
  then show ?thesis
  proof (cases c)
    case (CreateTask body a opts)
    then obtain r0 where "createTask e body a opts s = Some (r0, s')"
      using assms(1) by (auto split: option.splits sum.splits prod.splits)
    then show ?thesis using assms(2) createTask_ids createTask_inv by blast
  next
    case (FailTask j reason)
    then have "failTask e j reason s = (r, s')" using assms(1) by simp
    then show ?thesis using assms(2) failTask_ids failTask_inv by metis
  qed auto
qed

lemma reachable_inv: "reachable s \<Longrightarrow> demoted_inv s \<and> distinct (map t_id (tasks s))"
proof (induction rule: reachable.induct)
  case init
  then show ?case by (simp add: demoted_inv_def)
next
  case (call s e c r s')
  then show ?case using step_inv by blast
qed

lemma getTask_tasks_append:
  "tasks s' = tasks s @ xs \<Longrightarrow> getTask s i = Some t \<Longrightarrow> getTask s' i = Some t"
  by (auto simp: getTask_def find_app split: if_splits)

lemma step_get:
  assumes st: "step e c s = Some (r, s')" and g: "getTask s i = Some t"
  shows "\<exists>t'. getTask s' i = Some t' \<and>
     (unchanged_perm t t' \<or>
      ((\<exists>reason. c = FailTask i reason) \<and> t_attempts t' = t_attempts t + 1
        \<and> (if 3 \<le> t_attempts t + 1 then t_autonomy t' = Collab else t_autonomy t' = t_autonomy t)))"
proof (cases "case c of FailTask i x \<Rightarrow> False | CreateTask t a opts \<Rightarrow> False | _ \<Rightarrow> True")
  case True
  have "\<exists>t'. getTask s' i = Some t' \<and> unchanged_perm t t'"
    by (rule getTask_list_all2 [OF step_perm [OF st True] _ g]) (simp add: unchanged_perm_def)
  then show ?thesis by blast
next
  case False
  then show ?thesis
  proof (cases c)
    case (CreateTask body a opts)
    then obtain r0 where "createTask e body a opts s = Some (r0, s')"
      using st by (auto split: option.splits sum.splits prod.splits)
    from createTask_tasks [OF this] have "getTask s' i = Some t"
      using g getTask_tasks_append [of s' s _ i t] getTask_cong_tasks [of s' s i] by auto
    then show ?thesis by simp
  next
    case (FailTask j reason)
    then have f: "failTask e j reason s = (r, s')" using st by simp
    from failTask_tasks [OF f] show ?thesis
    proof
      assume "tasks s' = tasks s"
      then show ?thesis using g getTask_cong_tasks [of s' s i] by simp
    next
      assume "\<exists>task. getTask s j = Some task
          \<and> tasks s' = map (\<lambda>t. if t_id t = j then fail_row e task t else t) (tasks s)"
      then obtain task where gj: "getTask s j = Some task"
        and ts: "tasks s' = tasks (update_where (\<lambda>t. t_id t = j) (fail_row e task) s)"
        by auto
      have g': "getTask s' i = map_option (\<lambda>t. if t_id t = j then fail_row e task t else t) (getTask s i)"
        using getTask_cong_tasks [OF ts] by (simp add: getTask_update_where)
      show ?thesis
      proof (cases "i = j")
        case True
        then have "task = t" using g gj by simp
        then show ?thesis
          using g' g getTask_Some_id [OF g] True FailTask
          by (simp add: fail_row_def)
      next
        case False
        then show ?thesis using g' g getTask_Some_id [OF g] by simp
      qed
    qed
  qed auto
qed

lemma run_autonomy:
  "run cs s = Some s' \<Longrightarrow> getTask s i = Some t \<Longrightarrow>
   \<exists>t'. getTask s' i = Some t' \<and> t_attempts t \<le> t_attempts t'
      \<and> (t_autonomy t' = t_autonomy t \<or> (t_autonomy t' = Collab \<and> 3 \<le> t_attempts t'))"
proof (induction cs arbitrary: s t)
  case Nil
  then show ?case by simp
next
  case (Cons ec cs)
  obtain e c where ec: "ec = (e, c)" by (cases ec)
  from Cons.prems(1) ec obtain r s1 where st: "step e c s = Some (r, s1)" and rn: "run cs s1 = Some s'"
    by (auto split: option.splits)
  from step_get [OF st Cons.prems(2)] obtain t1 where g1: "getTask s1 i = Some t1"
    and rel: "unchanged_perm t t1 \<or> (t_attempts t1 = t_attempts t + 1
        \<and> (if 3 \<le> t_attempts t + 1 then t_autonomy t1 = Collab else t_autonomy t1 = t_autonomy t))"
    by blast
  from Cons.IH [OF rn g1] obtain t' where g': "getTask s' i = Some t'"
    and le: "t_attempts t1 \<le> t_attempts t'"
    and au: "t_autonomy t' = t_autonomy t1 \<or> (t_autonomy t' = Collab \<and> 3 \<le> t_attempts t')"
    by blast
  show ?case using g' le au rel
    by (auto simp: unchanged_perm_def split: if_splits)
qed

lemma failTask_get:
  assumes g: "getTask s i = Some t"
  shows "failTask e i r s = (None, snd (failTask e i r s))
       \<and> getTask (snd (failTask e i r s)) i = Some (fail_row e t t)"
  using g getTask_Some_id [OF g]
  by (simp add: failTask_def Let_def fail_row_def getTask_update_where)

lemma run_inv:
  "run cs s = Some s' \<Longrightarrow> demoted_inv s \<and> distinct (map t_id (tasks s)) \<Longrightarrow>
   demoted_inv s' \<and> distinct (map t_id (tasks s'))"
proof (induction cs arbitrary: s)
  case Nil
  then show ?case by simp
next
  case (Cons ec cs)
  obtain e c where ec: "ec = (e, c)" by (cases ec)
  from Cons.prems(1) ec obtain r s1 where st: "step e c s = Some (r, s1)" and rn: "run cs s1 = Some s'"
    by (auto split: option.splits)
  from step_inv [OF st Cons.prems(2)] Cons.IH [OF rn] show ?case by simp
qed

text \<open>
  Claim C1. Take a store that a sequence of calls has produced from the initial store, and a task
  of it. First, one call of any public operation leaves the autonomy of the task as it is, with
  the one exception that \<open>failTask\<close> on this task sets it to \<open>collab\<close> when it brings the attempt
  count to 3. Second, \<open>failTask\<close> on this task returns, raises the attempt count by one, and
  leaves the task with autonomy \<open>collab\<close> when the new count is 3 and with the autonomy it had
  otherwise. Third, after any further sequence of calls the attempt count has not gone down and
  the autonomy is \<open>collab\<close> when the count is 3 or more and is the autonomy the task had
  otherwise; so a task that is \<open>collab\<close> stays \<open>collab\<close>. Fourth, \<open>updateTask\<close> with an autonomy
  entry among its updates throws \<open>PERMISSION_DENIED\<close> with the current autonomy of the task and
  leaves the store as it is.
\<close>
theorem autonomy_fixed_except_demotion:
  assumes re: "reachable s" and g: "getTask s i = Some t"
  shows "(\<forall>e c r s'. step e c s = Some (r, s') \<longrightarrow>
            (\<exists>t'. getTask s' i = Some t' \<and>
               (t_autonomy t' = t_autonomy t
                \<or> ((\<exists>reason. c = FailTask i reason) \<and> t_attempts t' = 3 \<and> t_autonomy t' = Collab))))
       \<and> (\<forall>e reason r s'. step e (FailTask i reason) s = Some (r, s') \<longrightarrow>
            r = None \<and> (\<exists>t'. getTask s' i = Some t' \<and> t_attempts t' = t_attempts t + 1
               \<and> t_autonomy t' = (if t_attempts t + 1 = 3 then Collab else t_autonomy t)))
       \<and> (\<forall>cs s'. run cs s = Some s' \<longrightarrow>
            (\<exists>t'. getTask s' i = Some t' \<and>
               (t_autonomy t' = t_autonomy t \<or> (t_autonomy t' = Collab \<and> 3 \<le> t_attempts t'))
               \<and> (t_autonomy t = Collab \<longrightarrow> t_autonomy t' = Collab)
               \<and> t_attempts t \<le> t_attempts t'
               \<and> t_autonomy t' = (if 3 \<le> t_attempts t' then Collab else t_autonomy t)))
       \<and> (\<forall>e us actor. list_ex is_autonomy_update us \<longrightarrow>
            updateTask e i us actor s = (Some (PERMISSION_DENIED (t_autonomy t)), s))"
proof (intro conjI allI impI)
  fix e c r s'
  assume st: "step e c s = Some (r, s')"
  have inv: "3 \<le> t_attempts t \<longrightarrow> t_autonomy t = Collab"
    using reachable_inv [OF re] getTask_Some_id [OF g] by (auto simp: demoted_inv_def)
  from step_get [OF st g] inv
  show "\<exists>t'. getTask s' i = Some t' \<and>
               (t_autonomy t' = t_autonomy t
                \<or> ((\<exists>reason. c = FailTask i reason) \<and> t_attempts t' = 3 \<and> t_autonomy t' = Collab))"
    by (auto simp: unchanged_perm_def split: if_splits)
next
  fix e reason r s'
  assume "step e (FailTask i reason) s = Some (r, s')"
  then have f: "failTask e i reason s = (r, s')" by simp
  from failTask_get [OF g, of e reason] f show "r = None" by simp
next
  fix e reason r s'
  assume "step e (FailTask i reason) s = Some (r, s')"
  then have f: "failTask e i reason s = (r, s')" by simp
  have inv: "3 \<le> t_attempts t \<longrightarrow> t_autonomy t = Collab"
    using reachable_inv [OF re] getTask_Some_id [OF g] by (auto simp: demoted_inv_def)
  from failTask_get [OF g, of e reason] f
  have g': "getTask s' i = Some (fail_row e t t)" by simp
  have "t_attempts (fail_row e t t) = t_attempts t + 1"
    by (simp add: fail_row_def)
  moreover have "t_autonomy (fail_row e t t) = (if t_attempts t + 1 = 3 then Collab else t_autonomy t)"
    using inv by (auto simp: fail_row_def)
  ultimately show "\<exists>t'. getTask s' i = Some t' \<and> t_attempts t' = t_attempts t + 1
               \<and> t_autonomy t' = (if t_attempts t + 1 = 3 then Collab else t_autonomy t)"
    using g' by simp
next
  fix cs s'
  assume rn: "run cs s = Some s'"
  from run_autonomy [OF rn g] obtain t' where g': "getTask s' i = Some t'"
    and le: "t_attempts t \<le> t_attempts t'"
    and au: "t_autonomy t' = t_autonomy t \<or> (t_autonomy t' = Collab \<and> 3 \<le> t_attempts t')"
    by blast
  have "demoted_inv s'" using run_inv [OF rn reachable_inv [OF re]] by simp
  then have inv': "3 \<le> t_attempts t' \<longrightarrow> t_autonomy t' = Collab"
    using getTask_Some_id [OF g'] by (auto simp: demoted_inv_def)
  have "t_autonomy t' = (if 3 \<le> t_attempts t' then Collab else t_autonomy t)"
    using au inv' by auto
  then show "\<exists>t'. getTask s' i = Some t' \<and>
               (t_autonomy t' = t_autonomy t \<or> (t_autonomy t' = Collab \<and> 3 \<le> t_attempts t'))
               \<and> (t_autonomy t = Collab \<longrightarrow> t_autonomy t' = Collab)
               \<and> t_attempts t \<le> t_attempts t'
               \<and> t_autonomy t' = (if 3 \<le> t_attempts t' then Collab else t_autonomy t)"
    using g' le au by auto
next
  fix e us actor
  assume "list_ex is_autonomy_update us"
  then show "updateTask e i us actor s = (Some (PERMISSION_DENIED (t_autonomy t)), s)"
    using g getTask_Some_id [OF g] by (simp add: updateTask_def)
qed

section \<open>Status transitions\<close>

lemma startTask_status:
  assumes "startTask e j a s = (r, s')" and g: "getTask s i = Some t"
  shows "\<exists>t'. getTask s' i = Some t' \<and> (t_status t' = t_status t \<or> (t_status t = Todo \<and> t_status t' = InProgress))"
  using assms getTask_Some_id [OF g]
  by (cases "i = j")
     (auto simp: startTask_def getTask_update_where map_option_getTask_other
       split: option.splits if_splits)

lemma completeTask_status:
  assumes "completeTask e j a sid slog tools s = (r, s')" and g: "getTask s i = Some t"
  shows "\<exists>t'. getTask s' i = Some t' \<and> (t_status t' = t_status t
      \<or> (i = j \<and> t_status t \<noteq> Proposed \<and> t_status t' = Done))"
  using assms getTask_Some_id [OF g]
  by (cases "i = j")
     (auto simp: completeTask_def getTask_update_where map_option_getTask_other
       split: option.splits if_splits)

lemma failTask_status:
  assumes "failTask e j reason s = (r, s')" and g: "getTask s i = Some t"
  shows "\<exists>t'. getTask s' i = Some t' \<and> (t_status t' = t_status t \<or> (i = j \<and> t_status t' = Todo))"
  using assms getTask_Some_id [OF g]
  by (cases "i = j")
     (auto simp: failTask_def Let_def getTask_update_where map_option_getTask_other
       split: option.splits if_splits)

lemma archiveTask_status:
  assumes "archiveTask e j a s = (r, s')" and g: "getTask s i = Some t"
  shows "\<exists>t'. getTask s' i = Some t' \<and> (t_status t' = t_status t
      \<or> (t_status t \<noteq> Archived \<and> t_status t' = Archived))"
  using assms getTask_Some_id [OF g]
  by (cases "i = j")
     (auto simp: archiveTask_def getTask_update_where map_option_getTask_other
       split: option.splits if_splits)

lemma unarchiveTask_status:
  assumes "unarchiveTask e j a s = (r, s')" and g: "getTask s i = Some t"
  shows "\<exists>t'. getTask s' i = Some t' \<and> (t_status t' = t_status t \<or> (i = j \<and> t_status t' = Todo))"
  using assms getTask_Some_id [OF g]
  by (cases "i = j")
     (auto simp: unarchiveTask_def getTask_update_where map_option_getTask_other
       split: option.splits if_splits)

lemma confirmTask_status:
  assumes "confirmTask e j a s = (r, s')" and g: "getTask s i = Some t"
  shows "\<exists>t'. getTask s' i = Some t' \<and> (t_status t' = t_status t
      \<or> (t_status t = Proposed \<and> t_status t' = Todo))"
  using assms getTask_Some_id [OF g]
  by (cases "i = j")
     (auto simp: confirmTask_def getTask_update_where map_option_getTask_other
       split: option.splits if_splits)

lemma rejectTask_status:
  assumes "rejectTask e j a why s = (r, s')" and g: "getTask s i = Some t"
  shows "\<exists>t'. getTask s' i = Some t' \<and> (t_status t' = t_status t
      \<or> (t_status t = Proposed \<and> t_status t' = Archived))"
  using assms getTask_Some_id [OF g]
  by (cases "i = j")
     (auto simp: rejectTask_def getTask_update_where map_option_getTask_other
       split: option.splits if_splits)

lemma bulk_complete_one_rel:
  "list_all2 (completed_by [x]) (tasks (fst acc)) (tasks (fst (bulk_complete_one e a acc x)))"
  by (auto simp: bulk_complete_one_def completed_by_def list_all2_map2 list_all2_same)

lemma bulk_complete_fold_rel:
  "list_all2 (completed_by xs) (tasks (fst acc)) (tasks (fst (foldl (bulk_complete_one e a) acc xs)))"
proof (induction xs arbitrary: acc)
  case Nil
  then show ?case by (simp add: completed_by_def list_all2_same)
next
  case (Cons x xs)
  have "list_all2 (completed_by (x # xs)) (tasks (fst acc))
      (tasks (fst (foldl (bulk_complete_one e a) (bulk_complete_one e a acc x) xs)))"
    by (rule list_all2_trans [OF _ bulk_complete_one_rel [of x acc e a] Cons [of "bulk_complete_one e a acc x"]])
       (auto simp: completed_by_def)
  then show ?case by simp
qed

lemma bulk_archive_one_rel:
  "list_all2 (archived_by [x]) (tasks (fst acc)) (tasks (fst (bulk_archive_one e a acc x)))"
  by (auto simp: bulk_archive_one_def archived_by_def list_all2_map2 list_all2_same)

lemma bulk_archive_fold_rel:
  "list_all2 (archived_by xs) (tasks (fst acc)) (tasks (fst (foldl (bulk_archive_one e a) acc xs)))"
proof (induction xs arbitrary: acc)
  case Nil
  then show ?case by (simp add: archived_by_def list_all2_same)
next
  case (Cons x xs)
  have "list_all2 (archived_by (x # xs)) (tasks (fst acc))
      (tasks (fst (foldl (bulk_archive_one e a) (bulk_archive_one e a acc x) xs)))"
    by (rule list_all2_trans [OF _ bulk_archive_one_rel [of x acc e a] Cons [of "bulk_archive_one e a acc x"]])
       (auto simp: archived_by_def)
  then show ?case by simp
qed

lemma distinct_ids_eq:
  "distinct (map t_id ts) \<Longrightarrow> x \<in> set ts \<Longrightarrow> t \<in> set ts \<Longrightarrow> t_id x = t_id t \<Longrightarrow> x = t"
  by (meson distinct_map inj_onD)

lemma bulkComplete_status:
  assumes d: "distinct (map t_id (tasks s))" and g: "getTask s i = Some t"
  shows "\<exists>t'. getTask (snd (bulkComplete e f a s)) i = Some t' \<and> (t_status t' = t_status t
      \<or> ((t_status t = Todo \<or> t_status t = InProgress) \<and> t_status t' = Done))"
proof -
  let ?xs = "listTasks s f"
  have rel: "list_all2 (completed_by ?xs) (tasks s) (tasks (snd (bulkComplete e f a s)))"
    using bulk_complete_fold_rel [of ?xs "(s, 0)" e a] by (simp add: bulkComplete_def Let_def)
  from getTask_list_all2 [OF rel _ g] obtain t' where
    g': "getTask (snd (bulkComplete e f a s)) i = Some t'" and c: "completed_by ?xs t t'"
    by (auto simp: completed_by_def)
  have "x = t" if "x \<in> set ?xs" "t_id x = t_id t" for x
    using distinct_ids_eq [OF d _ _ that(2)] that(1) getTask_Some_id [OF g]
    by (auto simp: set_listTasks)
  then show ?thesis using g' c by (auto simp: completed_by_def)
qed

lemma bulkArchive_status:
  assumes d: "distinct (map t_id (tasks s))" and g: "getTask s i = Some t"
  shows "\<exists>t'. getTask (snd (bulkArchive e f a s)) i = Some t' \<and> (t_status t' = t_status t
      \<or> (t_status t \<noteq> Archived \<and> t_status t' = Archived))"
proof -
  let ?xs = "listTasks s f"
  have rel: "list_all2 (archived_by ?xs) (tasks s) (tasks (snd (bulkArchive e f a s)))"
    using bulk_archive_fold_rel [of ?xs "(s, 0)" e a] by (simp add: bulkArchive_def Let_def)
  from getTask_list_all2 [OF rel _ g] obtain t' where
    g': "getTask (snd (bulkArchive e f a s)) i = Some t'" and c: "archived_by ?xs t t'"
    by (auto simp: archived_by_def)
  have "x = t" if "x \<in> set ?xs" "t_id x = t_id t" for x
    using distinct_ids_eq [OF d _ _ that(2)] that(1) getTask_Some_id [OF g]
    by (auto simp: set_listTasks)
  then show ?thesis using g' c by (auto simp: archived_by_def)
qed

lemma createTask_status:
  assumes "createTask e body a opts s = Some (r, s')" and g: "getTask s i = Some t"
  shows "getTask s' i = Some t"
  using createTask_tasks [OF assms(1)] g getTask_tasks_append [of s' s _ i t]
    getTask_cong_tasks [of s' s i] by auto

lemma edge_amended_cases:
  "edge_amended a b \<longleftrightarrow> (a, b) \<in> {(Proposed, Todo), (Proposed, Archived), (Todo, InProgress),
     (InProgress, Done), (InProgress, Todo), (Todo, Archived), (InProgress, Archived),
     (Archived, Todo), (Todo, Done), (Done, Archived)}"
  by (auto simp: edge_amended_def edge_def)

lemma status_goal:
  "getTask s' i = Some t' \<Longrightarrow> t_status t' = t_status t \<or> edge_amended (t_status t) (t_status t') \<Longrightarrow>
   \<exists>t'. getTask s' i = Some t' \<and> (t_status t' = t_status t \<or> edge_amended (t_status t) (t_status t'))"
  by blast

lemma to_archived: "a \<noteq> Archived \<Longrightarrow> edge_amended a Archived"
  by (cases a) (simp_all add: edge_amended_cases)

lemma to_done: "a = Todo \<or> a = InProgress \<Longrightarrow> edge_amended a Done"
  by (auto simp: edge_amended_cases)

lemma to_todo: "a = Proposed \<or> a = InProgress \<or> a = Archived \<Longrightarrow> edge_amended a Todo"
  by (auto simp: edge_amended_cases)

lemma todo_to_in_progress: "edge_amended Todo InProgress"
  by (simp add: edge_amended_cases)

text \<open>
  Claim C3, amended. In every store that a sequence of calls has produced from the initial store,
  a lifecycle operation that is called on a task in a state it is meant for (complete on a task
  that is not archived, fail on a task that is \<open>todo\<close> or \<open>in_progress\<close>, unarchive on an archived
  task; the other operations in any state) changes the status of a task only along an edge of the
  graph of the specification or along one of the two further edges \<open>todo \<rightarrow> done\<close> and
  \<open>done \<rightarrow> archived\<close>.
\<close>
theorem status_changes_follow_amended_graph:
  assumes re: "reachable s" and lc: "lifecycle c" and src: "in_source_state c s"
    and st: "step e c s = Some (r, s')" and g: "getTask s i = Some t"
  shows "\<exists>t'. getTask s' i = Some t'
     \<and> (t_status t' = t_status t \<or> edge_amended (t_status t) (t_status t'))"
proof (cases c)
  case (CreateTask body a opts)
  then obtain r0 where "createTask e body a opts s = Some (r0, s')"
    using st by (auto split: option.splits sum.splits prod.splits)
  from createTask_status [OF this g] show ?thesis by simp
next
  case (StartTask j a)
  then have "startTask e j a s = (r, s')" using st by simp
  from startTask_status [OF this g] obtain t' where g': "getTask s' i = Some t'"
    and d: "t_status t' = t_status t \<or> (t_status t = Todo \<and> t_status t' = InProgress)"
    by blast
  show ?thesis
    by (rule status_goal [OF g']) (use d todo_to_in_progress in auto)
next
  case (CompleteTask j a sid slog tools)
  then have "completeTask e j a sid slog tools s = (r, s')" using st by simp
  from completeTask_status [OF this g] obtain t' where g': "getTask s' i = Some t'"
    and d: "t_status t' = t_status t \<or> (i = j \<and> t_status t \<noteq> Proposed \<and> t_status t' = Done)"
    by blast
  have "i = j \<Longrightarrow> t_status t \<noteq> Archived"
    using src CompleteTask g by (simp add: status_is_def)
  then have "t_status t' = t_status t \<or> (t_status t' = Done \<and> (t_status t = Todo \<or> t_status t = InProgress))"
    using d by (cases "t_status t") auto
  then show ?thesis
    by (intro status_goal [OF g']) (use to_done in auto)
next
  case (FailTask j reason)
  then have "failTask e j reason s = (r, s')" using st by simp
  from failTask_status [OF this g] obtain t' where g': "getTask s' i = Some t'"
    and d: "t_status t' = t_status t \<or> (i = j \<and> t_status t' = Todo)"
    by blast
  have "i = j \<Longrightarrow> t_status t = Todo \<or> t_status t = InProgress"
    using src FailTask g by (simp add: status_is_def)
  then have "t_status t' = t_status t \<or> (t_status t' = Todo \<and> t_status t = InProgress)"
    using d by auto
  then show ?thesis
    by (intro status_goal [OF g']) (use to_todo in auto)
next
  case (ArchiveTask j a)
  then have "archiveTask e j a s = (r, s')" using st by simp
  from archiveTask_status [OF this g] obtain t' where g': "getTask s' i = Some t'"
    and d: "t_status t' = t_status t \<or> (t_status t \<noteq> Archived \<and> t_status t' = Archived)"
    by blast
  show ?thesis
    by (rule status_goal [OF g']) (use d to_archived in auto)
next
  case (UnarchiveTask j a)
  then have "unarchiveTask e j a s = (r, s')" using st by simp
  from unarchiveTask_status [OF this g] obtain t' where g': "getTask s' i = Some t'"
    and d: "t_status t' = t_status t \<or> (i = j \<and> t_status t' = Todo)"
    by blast
  have "i = j \<Longrightarrow> t_status t = Archived"
    using src UnarchiveTask g by (simp add: status_is_def)
  then have "t_status t' = t_status t \<or> (t_status t' = Todo \<and> t_status t = Archived)"
    using d by auto
  then show ?thesis
    by (intro status_goal [OF g']) (use to_todo in auto)
next
  case (BulkComplete f a)
  then have s': "s' = snd (bulkComplete e f a s)" using st by simp
  from bulkComplete_status [OF conjunct2 [OF reachable_inv [OF re]] g, of e f a]
  obtain t' where g': "getTask s' i = Some t'"
    and d: "t_status t' = t_status t \<or> ((t_status t = Todo \<or> t_status t = InProgress) \<and> t_status t' = Done)"
    unfolding s' by blast
  show ?thesis
    by (rule status_goal [OF g']) (use d to_done in auto)
next
  case (BulkArchive f a)
  then have s': "s' = snd (bulkArchive e f a s)" using st by simp
  from bulkArchive_status [OF conjunct2 [OF reachable_inv [OF re]] g, of e f a]
  obtain t' where g': "getTask s' i = Some t'"
    and d: "t_status t' = t_status t \<or> (t_status t \<noteq> Archived \<and> t_status t' = Archived)"
    unfolding s' by blast
  show ?thesis
    by (rule status_goal [OF g']) (use d to_archived in auto)
next
  case (ConfirmTask j a)
  then have "confirmTask e j a s = (r, s')" using st by simp
  from confirmTask_status [OF this g] obtain t' where g': "getTask s' i = Some t'"
    and d: "t_status t' = t_status t \<or> (t_status t = Proposed \<and> t_status t' = Todo)"
    by blast
  show ?thesis
    by (rule status_goal [OF g']) (use d to_todo in auto)
next
  case (RejectTask j a why)
  then have "rejectTask e j a why s = (r, s')" using st by simp
  from rejectTask_status [OF this g] obtain t' where g': "getTask s' i = Some t'"
    and d: "t_status t' = t_status t \<or> (t_status t = Proposed \<and> t_status t' = Archived)"
    by blast
  show ?thesis
    by (rule status_goal [OF g']) (use d to_archived in auto)
qed (use lc in auto)

section \<open>Calls that throw\<close>

lemma createTask_human_error:
  "createTask e body Human opts s = Some (Inl err, s') \<Longrightarrow> s' = s"
  by (auto simp: createTask_def split: sum.splits option.splits)

lemma updateTask_error: "updateTask e i us a s = (Some err, s') \<Longrightarrow> s' = s"
  by (auto simp: updateTask_def split: if_splits option.splits sum.splits)

lemma startTask_error: "startTask e i a s = (Some err, s') \<Longrightarrow> s' = s"
  by (auto simp: startTask_def split: if_splits option.splits)

lemma completeTask_error: "completeTask e i a sid slog tools s = (Some err, s') \<Longrightarrow> s' = s"
  by (auto simp: completeTask_def split: if_splits option.splits)

lemma failTask_error: "failTask e i reason s = (Some err, s') \<Longrightarrow> s' = s"
  by (auto simp: failTask_def Let_def split: if_splits option.splits)

lemma archiveTask_error: "archiveTask e i a s = (Some err, s') \<Longrightarrow> s' = s"
  by (auto simp: archiveTask_def split: if_splits option.splits)

lemma unarchiveTask_error: "unarchiveTask e i a s = (Some err, s') \<Longrightarrow> s' = s"
  by (auto simp: unarchiveTask_def split: if_splits option.splits)

lemma confirmTask_error: "confirmTask e i a s = (Some err, s') \<Longrightarrow> s' = s"
  by (auto simp: confirmTask_def split: if_splits option.splits)

lemma rejectTask_error: "rejectTask e i a why s = (Some err, s') \<Longrightarrow> s' = s"
  by (auto simp: rejectTask_def split: if_splits option.splits)

lemma blockTask_error: "blockTask e i b a s = (Some err, s') \<Longrightarrow> s' = s"
  by (auto simp: blockTask_def split: if_splits option.splits)

lemma unblockTask_error: "unblockTask e i a s = (Some err, s') \<Longrightarrow> s' = s"
  by (auto simp: unblockTask_def split: if_splits option.splits)

lemma addNote_error: "addNote e i n a s = (Some err, s') \<Longrightarrow> s' = s"
  by (auto simp: addNote_def Let_def split: if_splits option.splits sum.splits)

lemma error_leaves_store:
  assumes st: "step e c s = Some (Some err, s')"
    and na: "\<And>body opts. c \<noteq> CreateTask body Agent opts"
  shows "s' = s"
proof (cases c)
  case (CreateTask body a opts)
  then have h: "a = Human" using na by (cases a) auto
  from CreateTask st have "createTask e body a opts s = Some (Inl err, s')"
    by (auto split: option.splits sum.splits prod.splits)
  then show ?thesis using h createTask_human_error by simp
next
  case (UpdateTask i us a)
  then show ?thesis using st updateTask_error by simp
next
  case (StartTask i a)
  then show ?thesis using st startTask_error by simp
next
  case (CompleteTask i a sid slog tools)
  then show ?thesis using st completeTask_error by simp
next
  case (FailTask i reason)
  then show ?thesis using st failTask_error by simp
next
  case (ArchiveTask i a)
  then show ?thesis using st archiveTask_error by simp
next
  case (UnarchiveTask i a)
  then show ?thesis using st unarchiveTask_error by simp
next
  case (ConfirmTask i a)
  then show ?thesis using st confirmTask_error by simp
next
  case (RejectTask i a why)
  then show ?thesis using st rejectTask_error by simp
next
  case (BlockTask i b a)
  then show ?thesis using st blockTask_error by simp
next
  case (UnblockTask i a)
  then show ?thesis using st unblockTask_error by simp
next
  case (AddNote i n a)
  then show ?thesis using st addNote_error by simp
qed (use st in auto)

section \<open>The properties at the example stores\<close>

lemma js_append: "js a @ js b = js (a @ b)"
  by (simp add: js_def)

lemma js_length [simp]: "length (js a) = length a"
  by (simp add: js_def)

lemma ex_complete_eval:
  "completeTask ex_env ex_A Human None None None ex_db1 = (None, ex_completed)"
  by (simp add: ex_completed_def completeTask_def blocker_unresolved_def)

lemma ex_completed_get: "map_option t_status (getTask ex_completed ex_A) = Some Done"
  by (simp add: ex_completed_def completeTask_def blocker_unresolved_def getTask_update_where)

lemma ex_archive_eval:
  "archiveTask ex_env ex_A Human ex_completed = (None, ex_archived)"
proof -
  have "\<exists>t. getTask ex_completed ex_A = Some t \<and> t_status t = Done"
    using ex_completed_get by auto
  then show ?thesis
    by (auto simp: ex_archived_def archiveTask_def)
qed

lemma ex_archived_get: "map_option t_status (getTask ex_archived ex_A) = Some Archived"
proof -
  obtain t where t: "getTask ex_completed ex_A = Some t" "t_status t = Done"
    using ex_completed_get by auto
  then show ?thesis
    using getTask_Some_id [OF t(1)]
    by (simp add: ex_archived_def archiveTask_def getTask_update_where)
qed

text \<open>
  Claim C3 as it is stated fails: a human creates a task, completes it and archives it. The task
  goes from \<open>todo\<close> to \<open>done\<close> and from \<open>done\<close> to \<open>archived\<close>, and neither is an edge of the
  graph the claim lists.
\<close>
theorem status_graph_counterexample:
  "run [(ex_env, CreateTask (js ''task'') Human no_options),
        (ex_env, CompleteTask ex_A Human None None None),
        (ex_env, ArchiveTask ex_A Human)] init_db = Some ex_archived
   \<and> map_option t_status (getTask ex_db1 ex_A) = Some Todo
   \<and> step ex_env (CompleteTask ex_A Human None None None) ex_db1 = Some (None, ex_completed)
   \<and> map_option t_status (getTask ex_completed ex_A) = Some Done
   \<and> \<not> edge Todo Done
   \<and> step ex_env (ArchiveTask ex_A Human) ex_completed = Some (None, ex_archived)
   \<and> map_option t_status (getTask ex_archived ex_A) = Some Archived
   \<and> \<not> edge Done Archived"
  by (simp add: ex_create_human ex_complete_eval ex_archive_eval ex_completed_get ex_archived_get edge_def)

text \<open>The amended claim C3 at the example store: completing the task takes the edge \<open>todo \<rightarrow> done\<close>.\<close>
theorem status_changes_follow_amended_graph_witness:
  "reachable ex_db1 \<and> lifecycle (CompleteTask ex_A Human None None None)
   \<and> in_source_state (CompleteTask ex_A Human None None None) ex_db1
   \<and> step ex_env (CompleteTask ex_A Human None None None) ex_db1 = Some (None, ex_completed)
   \<and> getTask ex_db1 ex_A = Some ex_rowA
   \<and> (\<exists>t'. getTask ex_completed ex_A = Some t'
         \<and> (t_status t' = t_status ex_rowA \<or> edge_amended (t_status ex_rowA) (t_status t')))"
proof -
  have 1: "lifecycle (CompleteTask ex_A Human None None None)" by simp
  have 2: "in_source_state (CompleteTask ex_A Human None None None) ex_db1"
    by (simp add: status_is_def)
  have 3: "step ex_env (CompleteTask ex_A Human None None None) ex_db1 = Some (None, ex_completed)"
    by (simp add: ex_complete_eval)
  show ?thesis
    using status_changes_follow_amended_graph [OF ex_db1_reachable 1 2 3 ex_db1_get]
      ex_db1_reachable 1 2 3 by simp
qed

lemma ex_rowB_simps [simp]:
  "t_id ex_rowB = ex_B" "t_status ex_rowB = Todo" "t_blocked_by ex_rowB = Some ex_A"
  "t_id ex_rowC = ex_C" "t_status ex_rowC = Todo" "t_blocked_by ex_rowC = Some ex_A"
  by (simp_all add: ex_rowB_def ex_rowC_def new_row_def or_null_def)

lemma ex_db3_get [simp]:
  "getTask ex_db3 ex_A = Some ex_rowA" "getTask ex_db3 ex_B = Some ex_rowB"
  "getTask ex_db3 ex_C = Some ex_rowC"
  by (simp_all add: getTask_def ex_db3_def)

text \<open>
  Claim C4 at the store with a blocker and two tasks it blocks: completing the blocker releases
  both, and completing a blocked task is refused.
\<close>
theorem completeTask_spec_witness:
  "getTask ex_db3 ex_A = Some ex_rowA
   \<and> fst (completeTask ex_env ex_A Human None None None ex_db3) = None
   \<and> (\<exists>t'. getTask (snd (completeTask ex_env ex_A Human None None None ex_db3)) ex_A = Some t'
         \<and> t_status t' = Done \<and> t_completed_at t' = Some (now_iso ex_env))
   \<and> (\<exists>u'. getTask (snd (completeTask ex_env ex_A Human None None None ex_db3)) ex_B = Some u'
         \<and> t_blocked_by u' = None)
   \<and> (\<exists>u'. getTask (snd (completeTask ex_env ex_A Human None None None ex_db3)) ex_C = Some u'
         \<and> t_blocked_by u' = None)
   \<and> getTask ex_db3 ex_B = Some ex_rowB
   \<and> completeTask ex_env ex_B Human None None None ex_db3 = (Some TASK_BLOCKED, ex_db3)"
proof -
  have ok: "fst (completeTask ex_env ex_A Human None None None ex_db3) = None"
    by (simp add: completeTask_def blocker_unresolved_def)
  have blk: "t_status ex_rowB \<noteq> Proposed \<and> t_status ex_rowB \<noteq> Done
     \<and> (\<exists>b blocker. t_blocked_by ex_rowB = Some b \<and> getTask ex_db3 b = Some blocker
          \<and> t_status blocker \<noteq> Done \<and> t_status blocker \<noteq> Archived)"
    by simp
  from completeTask_spec [of ex_db3 ex_A ex_rowA ex_env Human None None None] ok
  have a: "\<exists>t'. getTask (snd (completeTask ex_env ex_A Human None None None ex_db3)) ex_A = Some t'
         \<and> t_status t' = Done \<and> t_completed_at t' = Some (now_iso ex_env)"
    and b: "\<forall>j u. getTask ex_db3 j = Some u \<and> t_blocked_by u = Some ex_A \<longrightarrow>
          (\<exists>u'. getTask (snd (completeTask ex_env ex_A Human None None None ex_db3)) j = Some u'
             \<and> t_blocked_by u' = None)"
    by (simp_all add: Let_def)
  from b have bB: "\<exists>u'. getTask (snd (completeTask ex_env ex_A Human None None None ex_db3)) ex_B = Some u'
         \<and> t_blocked_by u' = None"
    using ex_db3_get(2) ex_rowB_simps(3) by blast
  from b have bC: "\<exists>u'. getTask (snd (completeTask ex_env ex_A Human None None None ex_db3)) ex_C = Some u'
         \<and> t_blocked_by u' = None"
    using ex_db3_get(3) ex_rowB_simps(6) by blast
  from completeTask_spec [of ex_db3 ex_B ex_rowB ex_env Human None None None] blk
  have c: "completeTask ex_env ex_B Human None None None ex_db3 = (Some TASK_BLOCKED, ex_db3)"
    by simp
  show ?thesis using ok a bB bC c by simp
qed

lemma ex_config_last [simp]: "getConfig init_db last_agent_proposal = None"
  by (simp add: getConfig_def init_db_def last_agent_proposal_def)

lemma countProposed_init [simp]: "countProposed init_db = 0"
  by (simp add: countProposed_def)

lemma ex_show_now: "show_int 1700000000000 = js ''1700000000000''"
  by (simp add: show_int_def show_nat.simps js_def)

lemma ex_parse_now: "parseInt (js ''1700000000000'') = Some 1700000000000"
  by (simp add: parseInt_def js_def is_space_def is_digit_def digits_value_def Let_def)

lemma ex_rate_init: "rate_limit ex_env Agent init_db = Inr ex_stamped"
  by (simp add: rate_limit_def Let_def ex_show_now ex_stamped_def)

lemma ex_validate_confirmed: "validate_inputs ex_env (js ''task'') ex_confirmed = Inr ex_clean"
  using ex_validate by (simp add: ex_confirmed_def)

lemma ex_stamped_tasks [simp]: "tasks ex_stamped = []"
  by (simp add: ex_stamped_def)

lemma ex_rowP_simps [simp]:
  "t_id ex_rowP = ex_A" "t_text ex_rowP = js ''task''" "t_status ex_rowP = Proposed"
  "t_project ex_rowP = None" "t_context ex_rowP = None"
  "t_blocked_by ex_rowP = None" "t_added_by ex_rowP = Agent" "t_notes ex_rowP = None"
  by (simp_all add: ex_rowP_def new_row_def ex_clean_def or_null_def ex_confirmed_def)

lemma ex_check_rowP: "check_row ex_rowP"
  by (simp add: check_row_def) (simp add: ex_A_def js_def lower_alnum_def sqlite_trim_def)

lemma ex_insert_P: "sql_insert ex_rowP ex_stamped = Inr (ex_stamped\<lparr>tasks := [ex_rowP]\<rparr>)"
  by (simp add: sql_insert_def ex_check_rowP fk_ok_def)

lemma ex_create_agent:
  "createTask ex_env (js ''task'') Agent ex_confirmed init_db = Some (Inr ex_A, ex_db_agent)"
proof -
  have "check_blocker init_db ex_A ex_confirmed = None"
    by (simp add: ex_confirmed_def)
  then show ?thesis
    by (simp add: createTask_def ex_validate_confirmed ex_pick_init ex_rate_init
        ex_insert_P [unfolded ex_rowP_def] ex_db_agent_def ex_rowP_def)
qed

text \<open>Claim C5 at the initial store: the agent passes \<open>confirmed: true\<close> and the task is \<open>proposed\<close>.\<close>
theorem createTask_initial_status_witness:
  "createTask ex_env (js ''task'') Agent ex_confirmed init_db = Some (Inr ex_A, ex_db_agent)
   \<and> o_confirmed ex_confirmed = Some True
   \<and> (\<exists>t. getTask ex_db_agent ex_A = Some t \<and> t_added_by t = Agent \<and> t_status t = Proposed)"
  using createTask_initial_status [OF ex_create_agent] ex_create_agent
  by (simp add: ex_confirmed_def)

lemma ex_db_agent_tasks [simp]: "tasks ex_db_agent = [ex_rowP]"
  by (simp add: ex_db_agent_def)

lemma ex_db_agent_config: "getConfig ex_db_agent last_agent_proposal = Some (js ''1700000000000'')"
  by (simp add: ex_db_agent_def ex_stamped_def getConfig_def setConfig_def addHistory_def audit_def)

lemma ex_agent_limited: "rate_limited ex_env ex_db_agent"
  unfolding rate_limited_def
  using ex_db_agent_config ex_parse_now by (intro disjI2 exI [of _ "js ''1700000000000''"] exI [of _ 1700000000000]) simp

lemma ex_agent_error: "rate_error ex_env ex_db_agent = RATE_LIMIT_EXCEEDED (CooldownSec 60)"
  by (simp add: rate_error_def countProposed_def ex_db_agent_config ex_parse_now ceil_div_def)

lemma ex_pick_agent: "pick_id ex_db_agent (draws ex_env) = Some ex_B"
  by (simp add: pick_id_def getTask_def ex_draws)

text \<open>
  Claim C6 at the store the agent has just written to: a second proposal at the same instant is
  refused with 60 seconds to wait.
\<close>
theorem createTask_rate_limit_witness:
  "rate_limited ex_env ex_db_agent
   \<and> createTask ex_env (js ''task'') Agent no_options ex_db_agent
       = Some (Inl (RATE_LIMIT_EXCEEDED (CooldownSec 60)), ex_db_agent)"
proof -
  have h: "validate_inputs ex_env (js ''task'') no_options = Inr ex_clean
      \<and> pick_id ex_db_agent (draws ex_env) = Some ex_B
      \<and> check_blocker ex_db_agent ex_B no_options = None"
    by (simp add: ex_validate ex_pick_agent)
  have "createTask ex_env (js ''task'') Agent no_options ex_db_agent
      = Some (Inl (rate_error ex_env ex_db_agent), ex_db_agent)"
    by (rule createTask_rate_limit [OF ex_agent_limited, of "js ''task''" no_options,
          THEN conjunct2, rule_format, OF h])
  then show ?thesis
    using ex_agent_limited by (simp add: ex_agent_error)
qed

lemma ex_validate_zwsp: "validate_inputs ex_env (js ''task'') ex_zwsp_project = Inr (js ''task'', Some [], None)"
  by (simp add: validate_inputs_def ex_sanitize_task ex_zwsp_project_def sanitizeTag_def
      stripControlChars_def ascii_control_def unicode_control_def LIMITS_def)

text \<open>
  Claim C7: the code does not keep it. The agent calls \<open>createTask\<close> on the initial store with a
  project tag that is a single zero-width space. \<open>sanitizeTag\<close> returns the empty string, which
  the format check skips as falsy; the rate limit then writes the time of the proposal to the
  config table; and the \<open>INSERT\<close> fails on the \<open>CHECK\<close> constraint of the project column. The
  call throws, no task row exists, and the config table is no longer what it was.
\<close>
theorem createTask_failed_insert_keeps_stamp:
  "createTask ex_env (js ''task'') Agent ex_zwsp_project init_db = Some (Inl SqliteError, ex_stamped)
   \<and> tasks ex_stamped = tasks init_db
   \<and> getConfig init_db last_agent_proposal = None
   \<and> getConfig ex_stamped last_agent_proposal = Some (js ''1700000000000'')
   \<and> config ex_stamped \<noteq> config init_db"
proof -
  have chk: "check_blocker init_db ex_A ex_zwsp_project = None"
    by (simp add: ex_zwsp_project_def)
  have row: "\<not> check_row (new_row ex_env ex_A (js ''task'', Some [], None) Agent ex_zwsp_project)"
    by (simp add: check_row_def new_row_def glob_tag_def)
  have c: "createTask ex_env (js ''task'') Agent ex_zwsp_project init_db = Some (Inl SqliteError, ex_stamped)"
    by (simp add: createTask_def ex_validate_zwsp ex_pick_init chk ex_rate_init sql_insert_def row)
  have g: "getConfig ex_stamped last_agent_proposal = Some (js ''1700000000000'')"
    by (simp add: ex_stamped_def getConfig_def setConfig_def)
  have "config ex_stamped last_agent_proposal \<noteq> config init_db last_agent_proposal"
    by (simp add: ex_stamped_def setConfig_def init_db_def last_agent_proposal_def)
  then have "config ex_stamped \<noteq> config init_db" by metis
  then show ?thesis using c g by simp
qed

lemmas sanitize_eval = sanitize_def truncate_js_def truncate_marker_def san_defs js_def

lemma ex_injection_sanitizeText:
  "sanitizeText (js ''SYSTEM MESSAGESYSTEM MESSAGE'') = Inr (js ''[FILTERED]SYSTEM MESSAGE'')"
  by (simp add: sanitizeText_def san_defs js_def trim_def LIMITS_def)

lemma ex_injection_validate:
  "validate_inputs ex_env (js ''SYSTEM MESSAGESYSTEM MESSAGE'') no_options
     = Inr (js ''[FILTERED]SYSTEM MESSAGE'', None, None)"
  by (simp add: validate_inputs_def ex_injection_sanitizeText)

lemma ex_rowI_simps [simp]:
  "t_id ex_rowI = ex_A" "t_text ex_rowI = js ''[FILTERED]SYSTEM MESSAGE''"
  "t_project ex_rowI = None" "t_context ex_rowI = None" "t_notes ex_rowI = None"
  "t_blocked_by ex_rowI = None"
  by (simp_all add: ex_rowI_def new_row_def or_null_def)

lemma ex_check_rowI: "check_row ex_rowI"
  by (simp add: check_row_def) (simp add: ex_A_def js_def lower_alnum_def sqlite_trim_def)

lemma ex_insert_I: "sql_insert ex_rowI init_db = Inr (init_db\<lparr>tasks := [ex_rowI]\<rparr>)"
  by (simp add: sql_insert_def ex_check_rowI fk_ok_def)

lemma ex_create_injection:
  "createTask ex_env (js ''SYSTEM MESSAGESYSTEM MESSAGE'') Human no_options init_db
     = Some (Inr ex_A, ex_db_injected)"
  by (simp add: createTask_def ex_injection_validate ex_pick_init ex_insert_I [unfolded ex_rowI_def]
      ex_db_injected_def ex_rowI_def)

lemma ex_db_injected_get: "getTask ex_db_injected ex_A = Some ex_rowI"
  by (simp add: getTask_def ex_db_injected_def)

text \<open>
  Claim C8: the code does not keep it. Each pattern is replaced in one pass from left to right.
  In \<open>SYSTEM MESSAGESYSTEM MESSAGE\<close> the second phrase does not start at a word boundary, so the
  pass replaces only the first; the marker it puts there ends with a bracket, so in the result
  \<open>[FILTERED]SYSTEM MESSAGE\<close> the phrase does start at a word boundary. \<open>sanitize\<close> returns
  that text, a second \<open>sanitize\<close> turns it into \<open>[FILTERED][FILTERED]\<close>, and \<open>createTask\<close>
  stores it as the text of the task with the phrase \<open>SYSTEM MESSAGE\<close> still in it.
\<close>
theorem sanitize_leaves_injection_phrase:
  "sanitize (Some ex_injection) 1000 = js ''[FILTERED]SYSTEM MESSAGE''
   \<and> stripInjectionPatterns (js ''[FILTERED]SYSTEM MESSAGE'') = js ''[FILTERED][FILTERED]''
   \<and> sanitize (Some (sanitize (Some ex_injection) 1000)) 1000 = js ''[FILTERED][FILTERED]''
   \<and> sanitize (Some (sanitize (Some ex_injection) 1000)) 1000 \<noteq> sanitize (Some ex_injection) 1000
   \<and> sanitizeText ex_injection = Inr (js ''[FILTERED]SYSTEM MESSAGE'')
   \<and> createTask ex_env ex_injection Human no_options init_db = Some (Inr ex_A, ex_db_injected)
   \<and> map_option t_text (getTask ex_db_injected ex_A) = Some (js ''[FILTERED]SYSTEM MESSAGE'')"
proof -
  have a: "sanitize (Some (js ''SYSTEM MESSAGESYSTEM MESSAGE'')) 1000 = js ''[FILTERED]SYSTEM MESSAGE''"
    by (simp add: sanitize_eval)
  have b: "sanitize (Some (js ''[FILTERED]SYSTEM MESSAGE'')) 1000 = js ''[FILTERED][FILTERED]''"
    by (simp add: sanitize_eval)
  have c: "stripInjectionPatterns (js ''[FILTERED]SYSTEM MESSAGE'') = js ''[FILTERED][FILTERED]''"
    by (simp add: san_defs js_def)
  have d: "js ''[FILTERED][FILTERED]'' \<noteq> js ''[FILTERED]SYSTEM MESSAGE''"
    by simp
  show ?thesis
    unfolding ex_injection_def a b
    using c d ex_injection_sanitizeText ex_create_injection ex_db_injected_get by simp
qed

lemma ex_strip_hello: "stripInjectionPatterns (stripControlChars (js ''hello'')) = js ''hello''"
  by (simp add: san_defs js_def)

lemma ex_date_part: "date_part (js ''2023-11-14T22:13:20.000Z'') = js ''2023-11-14''"
  by (simp add: date_part_def js_def)

lemma ex_db_full_get: "getTask ex_db_full ex_A = Some (ex_rowA\<lparr>t_notes := Some (replicate 4990 120)\<rparr>)"
  by (simp add: getTask_def ex_db_full_def)

text \<open>
  Claim C9 at the example stores: a note is appended with its date stamp, and on the task that
  has 4990 characters of notes the same call is refused with the combined length 5009.
\<close>
theorem addNote_spec_witness:
  "getTask ex_db1 ex_A = Some ex_rowA
   \<and> fst (addNote ex_env ex_A (js ''hello'') Human ex_db1) = None
   \<and> getTask (snd (addNote ex_env ex_A (js ''hello'') Human ex_db1)) ex_A
       = Some (ex_rowA\<lparr>t_notes := Some (js ''[2023-11-14] hello'')\<rparr>)
   \<and> getTask ex_db_full ex_A = Some (ex_rowA\<lparr>t_notes := Some (replicate 4990 120)\<rparr>)
   \<and> addNote ex_env ex_A (js ''hello'') Human ex_db_full = (Some (TEXT_TOO_LONG 5009), ex_db_full)"
proof -
  have a: "fst (addNote ex_env ex_A (js ''hello'') Human ex_db1) = None
     \<and> getTask (snd (addNote ex_env ex_A (js ''hello'') Human ex_db1)) ex_A
       = Some (ex_rowA\<lparr>t_notes := Some (js ''[2023-11-14] hello'')\<rparr>)"
    using addNote_spec [OF ex_db1_get, of "js ''hello''" ex_env Human]
    by (simp add: Let_def ex_strip_hello ex_date_part js_append)
  have b: "addNote ex_env ex_A (js ''hello'') Human ex_db_full = (Some (TEXT_TOO_LONG 5009), ex_db_full)"
    using addNote_spec [OF ex_db_full_get, of "js ''hello''" ex_env Human]
    by (simp add: Let_def ex_strip_hello ex_date_part js_append)
  show ?thesis using a b ex_db_full_get by simp
qed

lemma ex_rowU_simps [simp]:
  "t_status ex_rowU = Todo" "t_urgency ex_rowU = Now" "t_due_date ex_rowU = Some (js ''2023-11-01'')"
  by (simp_all add: ex_rowU_def)

lemma ex_overdue: "str_less (js ''2023-11-01'') (js ''2023-11-14'')"
  by (simp add: js_def)

text \<open>Claim C10 at a store whose task is urgent and overdue: it is in both buckets.\<close>
theorem generateInbox_urgent_overdue_witness:
  "ex_rowU \<in> set (tasks ex_db_inbox) \<and> t_urgency ex_rowU = Now
   \<and> t_due_date ex_rowU = Some (js ''2023-11-01'') \<and> date_part (now_iso ex_env) = js ''2023-11-14''
   \<and> ex_rowU \<in> set (urgent (generateInbox ex_env ex_db_inbox))
   \<and> ex_rowU \<in> set (overdue (generateInbox ex_env ex_db_inbox))"
proof -
  have m: "ex_rowU \<in> set (tasks ex_db_inbox)" by (simp add: ex_db_inbox_def)
  from generateInbox_urgent_overdue [of ex_env ex_db_inbox]
  have f: "set (listTasks ex_db_inbox active_filter)
        = {t \<in> set (tasks ex_db_inbox). t_status t \<in> {Todo, InProgress, Proposed}}"
    and u: "urgent (generateInbox ex_env ex_db_inbox)
        = filter (\<lambda>t. t_urgency t = Now \<and> (t_status t = Todo \<or> t_status t = InProgress))
            (listTasks ex_db_inbox active_filter)"
    and ov: "overdue (generateInbox ex_env ex_db_inbox)
        = filter (\<lambda>t. truthy (t_due_date t) \<and> str_less (the (t_due_date t)) (date_part (now_iso ex_env))
              \<and> (t_status t = Todo \<or> t_status t = InProgress))
            (listTasks ex_db_inbox active_filter)"
    by (simp_all add: Let_def)
  have "ex_rowU \<in> set (listTasks ex_db_inbox active_filter)"
    using m by (simp add: f)
  then show ?thesis
    using m by (simp add: u ov ex_date_part ex_overdue)
qed

lemma ex_rowT_simps [simp]:
  "t_id ex_rowT = ex_A" "t_autonomy ex_rowT = Auto" "t_attempts ex_rowT = 0"
  "t_blocked_by ex_rowT = None"
  by (simp_all add: ex_rowT_def new_row_def ex_auto_def no_options_def or_null_def)

lemma ex_check_rowT: "check_row ex_rowT"
  using ex_check_rowA
  by (simp add: check_row_def ex_rowT_def ex_rowA_def new_row_def ex_auto_def no_options_def)

lemma ex_validate_auto: "validate_inputs ex_env (js ''task'') ex_auto = Inr ex_clean"
  by (simp add: validate_inputs_def ex_sanitize_task ex_clean_def ex_auto_def)

lemma ex_create_auto:
  "createTask ex_env (js ''task'') Human ex_auto init_db = Some (Inr ex_A, ex_db_auto)"
proof -
  have ins: "sql_insert ex_rowT init_db = Inr (init_db\<lparr>tasks := [ex_rowT]\<rparr>)"
    by (simp add: sql_insert_def ex_check_rowT fk_ok_def)
  have cb: "check_blocker init_db ex_A ex_auto = None"
    by (simp add: ex_auto_def no_options_def)
  show ?thesis
    by (simp add: createTask_def ex_validate_auto ex_pick_init cb ins [unfolded ex_rowT_def]
        ex_db_auto_def ex_rowT_def)
qed

lemma ex_db_auto_reachable: "reachable ex_db_auto"
proof -
  have "step ex_env (CreateTask (js ''task'') Human ex_auto) init_db = Some (None, ex_db_auto)"
    by (simp add: ex_create_auto)
  then show ?thesis using reachable.call [OF reachable.init] by blast
qed

lemma ex_db_auto_get: "getTask ex_db_auto ex_A = Some ex_rowT"
  by (simp add: getTask_def ex_db_auto_def)

lemma ex_failed1_get:
  "getTask ex_failed1 ex_A = Some (fail_row ex_env ex_rowT ex_rowT)"
  "failTask ex_env ex_A (js ''timeout'') ex_db_auto = (None, ex_failed1)"
  using failTask_get [OF ex_db_auto_get] by (simp_all add: ex_failed1_def)

lemma ex_failed1_row:
  "t_attempts (fail_row ex_env ex_rowT ex_rowT) = 1"
  "t_autonomy (fail_row ex_env ex_rowT ex_rowT) = Auto"
  by (simp_all add: fail_row_def)

lemma ex_failed2_get:
  "getTask ex_failed2 ex_A
     = Some (fail_row ex_env (fail_row ex_env ex_rowT ex_rowT) (fail_row ex_env ex_rowT ex_rowT))"
  "failTask ex_env ex_A (js ''timeout'') ex_failed1 = (None, ex_failed2)"
  using failTask_get [OF ex_failed1_get(1)] by (simp_all add: ex_failed2_def)

lemma ex_failed2_row:
  "t_attempts (fail_row ex_env (fail_row ex_env ex_rowT ex_rowT) (fail_row ex_env ex_rowT ex_rowT)) = 2"
  "t_autonomy (fail_row ex_env (fail_row ex_env ex_rowT ex_rowT) (fail_row ex_env ex_rowT ex_rowT)) = Auto"
  by (simp_all add: fail_row_def)

lemma ex_failed3_get:
  "\<exists>t'. getTask ex_failed3 ex_A = Some t' \<and> t_autonomy t' = Collab \<and> t_attempts t' = 3"
  "failTask ex_env ex_A (js ''timeout'') ex_failed2 = (None, ex_failed3)"
  using failTask_get [OF ex_failed2_get(1)] ex_failed2_row
  by (simp_all add: ex_failed3_def fail_row_def)

lemma ex_fail_run: "run [ex_fail, ex_fail, ex_fail] ex_db_auto = Some ex_failed3"
  by (simp add: ex_fail_def ex_failed1_get(2) ex_failed2_get(2) ex_failed3_get(2))

lemma ex_failed2_reachable: "reachable ex_failed2"
proof -
  have 1: "step ex_env (FailTask ex_A (js ''timeout'')) ex_db_auto = Some (None, ex_failed1)"
    by (simp add: ex_failed1_get(2))
  have 2: "step ex_env (FailTask ex_A (js ''timeout'')) ex_failed1 = Some (None, ex_failed2)"
    by (simp add: ex_failed2_get(2))
  show ?thesis
    using reachable.call [OF reachable.call [OF ex_db_auto_reachable 1] 2] .
qed

text \<open>
  Claim C1 at the store whose task a human has created with autonomy \<open>auto\<close>: an edit that names
  an autonomy is refused with the current level \<open>auto\<close>; after one and after two failed attempts
  the level is still \<open>auto\<close>; the third failed attempt sets it to \<open>collab\<close>.
\<close>
theorem autonomy_fixed_except_demotion_witness:
  "reachable ex_db_auto \<and> getTask ex_db_auto ex_A = Some ex_rowT \<and> t_autonomy ex_rowT = Auto
   \<and> updateTask ex_env ex_A [UAutonomy Collab] Human ex_db_auto
        = (Some (PERMISSION_DENIED Auto), ex_db_auto)
   \<and> step ex_env (FailTask ex_A (js ''timeout'')) ex_db_auto = Some (None, ex_failed1)
   \<and> (\<exists>t'. getTask ex_failed1 ex_A = Some t' \<and> t_attempts t' = 1 \<and> t_autonomy t' = Auto)
   \<and> run [ex_fail, ex_fail] ex_db_auto = Some ex_failed2
   \<and> (\<exists>t'. getTask ex_failed2 ex_A = Some t' \<and> t_attempts t' = 2 \<and> t_autonomy t' = Auto)
   \<and> reachable ex_failed2
   \<and> step ex_env (FailTask ex_A (js ''timeout'')) ex_failed2 = Some (None, ex_failed3)
   \<and> (\<exists>t'. getTask ex_failed3 ex_A = Some t' \<and> t_attempts t' = 3 \<and> t_autonomy t' = Collab)"
proof -
  have st: "step ex_env (FailTask ex_A (js ''timeout'')) ex_db_auto = Some (None, ex_failed1)"
    by (simp add: ex_failed1_get(2))
  have r2: "run [ex_fail, ex_fail] ex_db_auto = Some ex_failed2"
    by (simp add: ex_fail_def ex_failed1_get(2) ex_failed2_get(2))
  have up: "list_ex is_autonomy_update [UAutonomy Collab]" by simp
  from autonomy_fixed_except_demotion [OF ex_db_auto_reachable ex_db_auto_get]
  have a: "\<forall>e reason r s'. step e (FailTask ex_A reason) ex_db_auto = Some (r, s') \<longrightarrow>
            r = None \<and> (\<exists>t'. getTask s' ex_A = Some t' \<and> t_attempts t' = t_attempts ex_rowT + 1
               \<and> t_autonomy t' = (if t_attempts ex_rowT + 1 = 3 then Collab else t_autonomy ex_rowT))"
    and b: "\<forall>cs s'. run cs ex_db_auto = Some s' \<longrightarrow>
            (\<exists>t'. getTask s' ex_A = Some t' \<and>
               (t_autonomy t' = t_autonomy ex_rowT \<or> (t_autonomy t' = Collab \<and> 3 \<le> t_attempts t'))
               \<and> (t_autonomy ex_rowT = Collab \<longrightarrow> t_autonomy t' = Collab)
               \<and> t_attempts ex_rowT \<le> t_attempts t'
               \<and> t_autonomy t' = (if 3 \<le> t_attempts t' then Collab else t_autonomy ex_rowT))"
    and c: "\<forall>e us actor. list_ex is_autonomy_update us \<longrightarrow>
            updateTask e ex_A us actor ex_db_auto = (Some (PERMISSION_DENIED (t_autonomy ex_rowT)), ex_db_auto)"
    by blast+
  from a st have 1: "\<exists>t'. getTask ex_failed1 ex_A = Some t' \<and> t_attempts t' = 1 \<and> t_autonomy t' = Auto"
    by fastforce
  from b r2 have "\<exists>t'. getTask ex_failed2 ex_A = Some t'
      \<and> t_autonomy t' = (if 3 \<le> t_attempts t' then Collab else Auto)"
    by fastforce
  then have 2: "\<exists>t'. getTask ex_failed2 ex_A = Some t' \<and> t_attempts t' = 2 \<and> t_autonomy t' = Auto"
    using ex_failed2_get(1) ex_failed2_row by auto
  have st3: "step ex_env (FailTask ex_A (js ''timeout'')) ex_failed2 = Some (None, ex_failed3)"
    by (simp add: ex_failed3_get(2))
  from autonomy_fixed_except_demotion [OF ex_failed2_reachable ex_failed2_get(1)]
  have d: "\<forall>e reason r s'. step e (FailTask ex_A reason) ex_failed2 = Some (r, s') \<longrightarrow>
            r = None \<and> (\<exists>t'. getTask s' ex_A = Some t'
               \<and> t_attempts t' = t_attempts (fail_row ex_env (fail_row ex_env ex_rowT ex_rowT)
                    (fail_row ex_env ex_rowT ex_rowT)) + 1
               \<and> t_autonomy t' = (if t_attempts (fail_row ex_env (fail_row ex_env ex_rowT ex_rowT)
                    (fail_row ex_env ex_rowT ex_rowT)) + 1 = 3 then Collab
                  else t_autonomy (fail_row ex_env (fail_row ex_env ex_rowT ex_rowT)
                    (fail_row ex_env ex_rowT ex_rowT))))"
    by blast
  from d st3 have 3: "\<exists>t'. getTask ex_failed3 ex_A = Some t' \<and> t_attempts t' = 3 \<and> t_autonomy t' = Collab"
    unfolding ex_failed2_row by fastforce
  from c up have 4: "updateTask ex_env ex_A [UAutonomy Collab] Human ex_db_auto
      = (Some (PERMISSION_DENIED Auto), ex_db_auto)"
    by fastforce
  show ?thesis
    using ex_db_auto_reachable ex_db_auto_get st r2 1 2 3 4 st3 ex_failed2_reachable by simp
qed

end
